theory Spec2Isabelle
  imports Main "HOL-Library.Word"
begin

section \<open>Data model of the simulated OLT (internal/bbsim/devices/olt.go)\<close>

text \<open>
  Go's \<open>uint32\<close> and \<open>int32\<close> are both 32-bit words; the conversions \<open>uint32(x)\<close> and
  \<open>int32(x)\<close> between them keep the bits, so both are modelled by the same word type and
  the conversions are the identity. The constant \<open>-1\<close> of an \<open>int32\<close> field is the word
  \<open>-1\<close>.
\<close>

type_synonym uint32 = "32 word"
type_synonym int32 = "32 word"
type_synonym uint64 = "64 word"

text \<open>
  \<open>openolt.Flow\<close>, restricted to the fields that olt.go reads outside of log statements.
  \<open>PbitToGemport\<close> is a Go map from p-bit to GEM port; the code only ranges over it, so it
  is kept as the list of its (key, value) pairs in the order the iteration visits them.
\<close>

record Flow =
  AccessIntfId :: int32
  OnuId :: int32
  FlowId :: uint64
  FlowType :: string
  AllocId :: int32
  GemportId :: int32
  PortNo :: uint32
  ReplicateFlow :: bool
  PbitToGemport :: "(uint32 \<times> uint32) list"

text \<open>
  The errors olt.go returns, and the run-time panics it can raise. The spec's taxonomy
  names them: \<open>ErrGemInUse\<close> and \<open>ErrAllocInUse\<close> are the two \<open>ResourceConflictError\<close>s of
  \<open>validateFlow\<close>, \<open>ErrOnuNotReady\<close> is the \<open>DeviceNotReadyError\<close> of \<open>FlowAdd\<close>,
  \<open>ErrFlowNotFound\<close> is the \<open>codes.NotFound\<close> status of \<open>FlowRemove\<close>, and
  \<open>ErrInvalidEvent\<close> is the error of \<open>fsm.Event\<close> (\<open>StateTransitionError\<close>).
  \<open>FatalServerRunning\<close> is the exit of the process by \<open>oltLogger.Fatal\<close> in \<open>InitOlt\<close>;
  like a panic, it ends the run.
\<close>

datatype error =
    ErrOnuNotFound
  | ErrOnuNotReady
  | ErrGemInUse
  | ErrAllocInUse
  | ErrFlowNotFound
  | ErrOnuByFlowIdNotFound
  | ErrInvalidEvent
  | PanicNilMap
  | PanicNilPointer
  | PanicCloseChannel
  | PanicIndexOutOfRange
  | FatalServerRunning

fun isPanic :: "error \<Rightarrow> bool" where
  "isPanic PanicNilMap = True"
| "isPanic PanicNilPointer = True"
| "isPanic PanicCloseChannel = True"
| "isPanic PanicIndexOutOfRange = True"
| "isPanic FatalServerRunning = True"
| "isPanic _ = False"

subsection \<open>The resource ledgers\<close>

text \<open>
  \<open>map[ponPortId]map[OnuId]map[PortNo]map[AllocId or GemPortId]map[FlowId]bool\<close>.
  The innermost map only ever receives the value \<open>true\<close> and loses keys by \<open>delete\<close>, so
  it is the set of its keys and \<open>len\<close> of it is 0 exactly when that set is empty.
\<close>

type_synonym flowset = "uint64 set"
type_synonym resmap = "int32 \<rightharpoonup> flowset"
type_synonym portmap = "uint32 \<rightharpoonup> resmap"
type_synonym onumap = "uint32 \<rightharpoonup> portmap"
type_synonym ledger = "uint32 \<rightharpoonup> onumap"

text \<open>The flow set of the entry at a composite key, when that entry exists.\<close>

definition lookup4 :: "ledger \<Rightarrow> uint32 \<Rightarrow> uint32 \<Rightarrow> uint32 \<Rightarrow> int32 \<Rightarrow> flowset option" where
  "lookup4 L ponId onuId portNo resId =
     (case L ponId of None \<Rightarrow> None
      | Some onus \<Rightarrow> (case onus onuId of None \<Rightarrow> None
         | Some ports \<Rightarrow> (case ports portNo of None \<Rightarrow> None
            | Some res \<Rightarrow> res resId)))"

text \<open>The composite keys of the resource-ID entries of a ledger.\<close>

definition ledgerEntries :: "ledger \<Rightarrow> (uint32 \<times> uint32 \<times> uint32 \<times> int32) set" where
  "ledgerEntries L = {(p, n, u, r). lookup4 L p n u r \<noteq> None}"

text \<open>
  The body that \<open>storeAllocId\<close> (olt.go:1776) and \<open>storeGemPortId\<close> (olt.go:1840) share.
  A missing PON or ONU level is only logged (\<open>trying-to-store-...-for-unknown-onu\<close>); the
  assignment \<open>m[ponId][onuId][portNo] = make(...)\<close> that follows then writes into the nil
  map \<open>m[ponId][onuId]\<close> and panics. The port level and the resource level are created
  when missing, and the flow ID is added to the entry.
\<close>

definition storeResource ::
  "ledger \<Rightarrow> uint32 \<Rightarrow> uint32 \<Rightarrow> uint32 \<Rightarrow> int32 \<Rightarrow> uint64 \<Rightarrow> error + ledger" where
  "storeResource L ponId onuId portNo resId flowId =
     (case L ponId of None \<Rightarrow> Inl PanicNilMap
      | Some onus \<Rightarrow> (case onus onuId of None \<Rightarrow> Inl PanicNilMap
         | Some ports \<Rightarrow>
             let res = (case ports portNo of None \<Rightarrow> Map.empty | Some r \<Rightarrow> r);
                 flows = (case res resId of None \<Rightarrow> {} | Some s \<Rightarrow> s)
             in Inr (L(ponId \<mapsto> onus(onuId \<mapsto> ports(portNo \<mapsto> res(resId \<mapsto> insert flowId flows)))))))"

text \<open>
  The two innermost loops of \<open>freeAllocId\<close> (olt.go:1823) and \<open>freeGemPortId\<close>
  (olt.go:1916), on one port's map. For each resource ID the loop over the flow set
  deletes the matching flow ID when it meets it and, after every element it visits,
  deletes the resource ID if the set has become empty. The body runs once per element,
  so an entry whose set is already empty is not visited and stays; otherwise the set
  loses the flow ID, and the entry goes when nothing is left. The result does not depend
  on the order in which Go visits the keys.
\<close>

definition freeFlows :: "uint64 \<Rightarrow> resmap \<Rightarrow> resmap" where
  "freeFlows flowId uniValues =
     (\<lambda>resId. case uniValues resId of None \<Rightarrow> None
        | Some flows \<Rightarrow>
            if flows = {} then Some flows
            else if flows - {flowId} = {} then None
            else Some (flows - {flowId}))"

text \<open>The three outer loops: every port map of every ONU of every PON is treated.\<close>

definition freeResource :: "ledger \<Rightarrow> uint64 \<Rightarrow> ledger" where
  "freeResource L flowId =
     (\<lambda>ponId. map_option
        (\<lambda>ponValues onuId. map_option
           (\<lambda>onuValues uniId. map_option (freeFlows flowId) (onuValues uniId))
           (ponValues onuId))
        (L ponId))"

subsection \<open>Devices\<close>

text \<open>\<open>types.OperState\<close>, the payload of the OLT, NNI and PON indication messages.\<close>

datatype OperState = UP | DOWN

text \<open>The states and events of the OLT's \<open>InternalState\<close> machine (olt.go:60).\<close>

datatype olt_state =
    OltInternalStateCreated
  | OltInternalStateInitialized
  | OltInternalStateEnabled
  | OltInternalStateDisabled
  | OltInternalStateDeleted

datatype olt_tx =
    OltInternalTxInitialize
  | OltInternalTxEnable
  | OltInternalTxDisable
  | OltInternalTxDelete

text \<open>
  Modelled from the spec: the ONU's \<open>InternalState\<close> machine is declared in onu.go, which
  is not among the sources. Its states are the four of section 4.1 of the spec; olt.go
  tests for \<open>OnuStateDisabled\<close> and \<open>OnuStatePonDisabled\<close> and fires the events
  \<open>OnuTxEnable\<close> and \<open>OnuTxDisable\<close>. The transitions of that machine are not described;
  the functions below that fire an ONU event take them as the parameter \<open>onuFsm\<close>
  (\<open>None\<close> when the event is refused).
\<close>

datatype onu_state =
    OnuStateCreated
  | OnuStateEnabled
  | OnuStateDisabled
  | OnuStatePonDisabled

datatype onu_tx = OnuTxEnable | OnuTxDisable

type_synonym onu_fsm = "onu_state \<Rightarrow> onu_tx \<Rightarrow> onu_state option"

text \<open>The states of an \<open>OperState\<close> machine: the strings \<open>up\<close> and \<open>down\<close>.\<close>

datatype oper_state = OperStateUp | OperStateDown

text \<open>\<open>FlowKey{ID: flow.FlowId}\<close>; the zero value \<open>FlowKey{}\<close> has ID 0.\<close>

datatype FlowKey = FlowKey (KeyID: uint64)

text \<open>
  The messages \<open>FlowAdd\<close> and \<open>FlowRemove\<close> put on an ONU's channel:
  \<open>types.Message{Type: types.FlowAdd, Data: OnuFlowUpdateMessage{PonPortID, OnuID, Flow}}\<close>
  and \<open>types.Message{Type: types.FlowRemoved, Data: OnuFlowUpdateMessage{Flow}}\<close>.
\<close>

datatype OnuMessage =
    MsgFlowAdd uint32 uint32 Flow
  | MsgFlowRemoved Flow

text \<open>
  An ONU, with the fields olt.go touches. \<open>OnuChannel\<close> holds the messages sent on
  \<open>onu.Channel\<close>, oldest first; the send is taken to complete (the ONU's own loop
  receives it).
\<close>

record Onu =
  OnuID :: uint32
  OnuPonPortID :: uint32
  OnuSn :: string
  OnuInternalState :: onu_state
  OnuFlows :: "FlowKey list"
  OnuFlowIds :: "uint64 list"
  OnuChannel :: "OnuMessage list"

record PonPort =
  PonID :: uint32
  PonType :: string
  PonOperState :: oper_state
  Onus :: "Onu list"

record NniPort =
  NniID :: uint32
  NniType :: string
  NniOperState :: oper_state

text \<open>The indications olt.go sends on the stream of the session.\<close>

datatype Indication =
    OltInd OperState
  | AlarmInd string
  | IntfOperInd string uint32 oper_state uint32
  | IntfInd uint32 oper_state

text \<open>
  Modelled from the spec: \<open>publishEvent(eventType, ponId, onuId, serial)\<close> is declared
  outside olt.go. Section 4.4 of the spec has \<open>FlowAdd\<close> emit a "first flow" event; the
  model records every call, in order, in the field \<open>Published\<close> of the device.
\<close>

datatype PublishedEvent = PublishedEvent string int32 int32 string

text \<open>A Go channel as far as \<open>close\<close> is concerned, and a cancellable context.\<close>

datatype chan_state = ChanNil | ChanOpen | ChanClosed

datatype ctx_state = CtxNil | CtxLive | CtxCanceled

text \<open>
  \<open>OltDevice\<close> (olt.go:74). \<open>Flows\<close> is the \<open>sync.Map\<close> from flow key to flow.
  \<open>OltServer\<close> tells whether the gRPC server pointer is non-nil, \<open>enableContext\<close>
  stands for the pair \<open>enableContext\<close>, \<open>enableContextCancel\<close>, \<open>Published\<close> collects
  the calls of \<open>publishEvent\<close> and \<open>OpenoltStream\<close> the indications sent, oldest first.
\<close>

record OltDevice =
  InternalState :: olt_state
  OperStateFsm :: oper_state
  enablePerf :: bool
  PreviouslyConnected :: bool
  OltServer :: bool
  channel :: chan_state
  enableContext :: ctx_state
  NniSpeed :: uint32
  Flows :: "FlowKey \<rightharpoonup> Flow"
  Pons :: "PonPort list"
  Nnis :: "NniPort list"
  AllocIDs :: ledger
  GemPortIDs :: ledger
  signature :: uint32
  Published :: "PublishedEvent list"
  OpenoltStream :: "Indication list"

subsection \<open>Lookups\<close>

text \<open>
  The position of the first element that satisfies a test: the loops
  \<open>for _, x := range xs { if ... { return x, nil } }\<close> return a pointer to that element.
\<close>

fun firstIndex :: "('a \<Rightarrow> bool) \<Rightarrow> 'a list \<Rightarrow> nat option" where
  "firstIndex P [] = None"
| "firstIndex P (x # xs) = (if P x then Some 0 else map_option Suc (firstIndex P xs))"

text \<open>\<open>GetPonById\<close> (olt.go:700): \<open>None\<close> is the nil pointer returned with the error.\<close>

definition GetPonById :: "OltDevice \<Rightarrow> uint32 \<Rightarrow> nat option" where
  "GetPonById d ponId = firstIndex (\<lambda>pon. PonID pon = ponId) (Pons d)"

text \<open>
  Modelled from the spec: \<open>PonPort.GetOnuById\<close> and \<open>PonPort.GetOnuBySn\<close> are declared in
  pon.go, which is not among the sources. They are taken to return the first ONU of the
  PON with the given ID or serial number and an error when there is none, as the
  lookups \<open>FindOnuById\<close> (olt.go:971) and \<open>FindOnuBySn\<close> (olt.go:956) of olt.go do.
\<close>

definition GetOnuById :: "PonPort \<Rightarrow> uint32 \<Rightarrow> nat option" where
  "GetOnuById pon onuId = firstIndex (\<lambda>onu. OnuID onu = onuId) (Onus pon)"

definition GetOnuBySn :: "PonPort \<Rightarrow> string \<Rightarrow> nat option" where
  "GetOnuBySn pon sn = firstIndex (\<lambda>onu. OnuSn onu = sn) (Onus pon)"

text \<open>Writing through the pointer to the \<open>j\<close>-th ONU of the \<open>i\<close>-th PON.\<close>

definition updateOnu :: "nat \<Rightarrow> nat \<Rightarrow> (Onu \<Rightarrow> Onu) \<Rightarrow> OltDevice \<Rightarrow> OltDevice" where
  "updateOnu i j f d =
     d\<lparr>Pons := (Pons d)[i := (Pons d ! i)\<lparr>Onus := (Onus (Pons d ! i))[j := f (Onus (Pons d ! i) ! j)]\<rparr>]\<rparr>"

text \<open>\<open>GetOnuByFlowId\<close> (olt.go:1391): the first ONU whose \<open>FlowIds\<close> holds the flow ID.\<close>

fun GetOnuByFlowIdIn :: "PonPort list \<Rightarrow> uint64 \<Rightarrow> nat \<Rightarrow> (nat \<times> nat) option" where
  "GetOnuByFlowIdIn [] flowId i = None"
| "GetOnuByFlowIdIn (pon # pons) flowId i =
     (case firstIndex (\<lambda>onu. flowId \<in> set (OnuFlowIds onu)) (Onus pon) of
        Some j \<Rightarrow> Some (i, j)
      | None \<Rightarrow> GetOnuByFlowIdIn pons flowId (Suc i))"

definition GetOnuByFlowId :: "OltDevice \<Rightarrow> uint64 \<Rightarrow> (nat \<times> nat) option" where
  "GetOnuByFlowId d flowId = GetOnuByFlowIdIn (Pons d) flowId 0"

subsection \<open>Ledger operations of the device\<close>

text \<open>\<open>storeAllocId\<close> (olt.go:1776).\<close>

definition storeAllocId :: "OltDevice \<Rightarrow> Flow \<Rightarrow> error + OltDevice" where
  "storeAllocId d flow =
     (case storeResource (AllocIDs d) (AccessIntfId flow) (OnuId flow) (PortNo flow)
             (AllocId flow) (FlowId flow) of
        Inl e \<Rightarrow> Inl e
      | Inr L \<Rightarrow> Inr (d\<lparr>AllocIDs := L\<rparr>))"

text \<open>\<open>freeAllocId\<close> (olt.go:1807).\<close>

definition freeAllocId :: "OltDevice \<Rightarrow> Flow \<Rightarrow> OltDevice" where
  "freeAllocId d flow = d\<lparr>AllocIDs := freeResource (AllocIDs d) (FlowId flow)\<rparr>"

text \<open>\<open>storeGemPortId\<close> (olt.go:1840).\<close>

definition storeGemPortId ::
  "OltDevice \<Rightarrow> uint32 \<Rightarrow> uint32 \<Rightarrow> uint32 \<Rightarrow> int32 \<Rightarrow> uint64 \<Rightarrow> error + OltDevice" where
  "storeGemPortId d ponId onuId portNo gemId flowId =
     (case storeResource (GemPortIDs d) ponId onuId portNo gemId flowId of
        Inl e \<Rightarrow> Inl e
      | Inr L \<Rightarrow> Inr (d\<lparr>GemPortIDs := L\<rparr>))"

text \<open>
  \<open>storeGemPortIdByFlow\<close> (olt.go:1871): a replicated flow stores every GEM port of
  \<open>PbitToGemport\<close>, any other flow its \<open>GemportId\<close>. A panic ends the loop.
\<close>

fun storeGemPorts :: "OltDevice \<Rightarrow> Flow \<Rightarrow> uint32 list \<Rightarrow> error + OltDevice" where
  "storeGemPorts d flow [] = Inr d"
| "storeGemPorts d flow (gem # gems) =
     (case storeGemPortId d (AccessIntfId flow) (OnuId flow) (PortNo flow) gem (FlowId flow) of
        Inl e \<Rightarrow> Inl e
      | Inr d' \<Rightarrow> storeGemPorts d' flow gems)"

definition storeGemPortIdByFlow :: "OltDevice \<Rightarrow> Flow \<Rightarrow> error + OltDevice" where
  "storeGemPortIdByFlow d flow =
     (if ReplicateFlow flow then storeGemPorts d flow (map snd (PbitToGemport flow))
      else storeGemPortId d (AccessIntfId flow) (OnuId flow) (PortNo flow)
             (GemportId flow) (FlowId flow))"

text \<open>\<open>freeGemPortId\<close> (olt.go:1891).\<close>

definition freeGemPortId :: "OltDevice \<Rightarrow> Flow \<Rightarrow> OltDevice" where
  "freeGemPortId d flow = d\<lparr>GemPortIDs := freeResource (GemPortIDs d) (FlowId flow)\<rparr>"

text \<open>
  \<open>validateFlow\<close> (olt.go:1936). The first loop looks, among the ONUs of the flow's PON
  other than the flow's own, for a GEM port entry equal to the flow's GEM port (to one
  of the GEM ports of \<open>PbitToGemport\<close> for a replicated flow); the second loop does the
  same for the Alloc-ID. Ranging over the nil map of an unknown PON visits nothing. The
  error's text names the entry met first; which kind of error is returned does not
  depend on the order of the iteration.
\<close>

definition gemInUse :: "onumap \<Rightarrow> Flow \<Rightarrow> bool" where
  "gemInUse ponValues flow =
     (\<exists>onuId \<in> dom ponValues. onuId \<noteq> OnuId flow \<and>
        (case ponValues onuId of None \<Rightarrow> False
         | Some onu \<Rightarrow> \<exists>uniId \<in> dom onu.
             (case onu uniId of None \<Rightarrow> False
              | Some uni \<Rightarrow> \<exists>gem \<in> dom uni.
                  if ReplicateFlow flow
                  then \<exists>flowGem \<in> set (map snd (PbitToGemport flow)). gem = flowGem
                  else gem = GemportId flow)))"

definition allocInUse :: "onumap \<Rightarrow> Flow \<Rightarrow> bool" where
  "allocInUse ponValues flow =
     (\<exists>onuId \<in> dom ponValues. onuId \<noteq> OnuId flow \<and>
        (case ponValues onuId of None \<Rightarrow> False
         | Some onu \<Rightarrow> \<exists>uniId \<in> dom onu.
             (case onu uniId of None \<Rightarrow> False
              | Some uni \<Rightarrow> \<exists>allocId \<in> dom uni. allocId = AllocId flow)))"

definition validateFlow :: "OltDevice \<Rightarrow> Flow \<Rightarrow> error option" where
  "validateFlow d flow =
     (if (case GemPortIDs d (AccessIntfId flow) of None \<Rightarrow> False
          | Some ponValues \<Rightarrow> gemInUse ponValues flow)
      then Some ErrGemInUse
      else if (case AllocIDs d (AccessIntfId flow) of None \<Rightarrow> False
               | Some ponValues \<Rightarrow> allocInUse ponValues flow)
      then Some ErrAllocInUse
      else None)"

text \<open>
  \<open>clearAllResources\<close> (olt.go:1981): both ledgers become new, empty maps. The calls
  \<open>removeAllAllocIds\<close>, \<open>removeAllGemPorts\<close> and \<open>removeAllOnuIds\<close> on every PON clear
  the PON's own tables of resources learnt over OMCI, which are not part of this model.
\<close>

definition clearAllResources :: "OltDevice \<Rightarrow> OltDevice" where
  "clearAllResources d = d\<lparr>GemPortIDs := Map.empty, AllocIDs := Map.empty\<rparr>"

subsection \<open>Flow management\<close>

text \<open>
  The bookkeeping of \<open>FlowAdd\<close> on the ONU (olt.go:1255-1259), done when \<open>enablePerf\<close>
  is false: the flow key is appended to the ONU's \<open>Flows\<close>, and \<open>Flow-add-received\<close> is
  published when the list then has length 1.
\<close>

definition recordOnuFlow :: "OltDevice \<Rightarrow> nat \<Rightarrow> nat \<Rightarrow> FlowKey \<Rightarrow> OltDevice" where
  "recordOnuFlow d1 i j flowKey =
     (let onu = Onus (Pons d1 ! i) ! j;
          d2 = updateOnu i j (\<lambda>n. n\<lparr>OnuFlows := OnuFlows n @ [flowKey]\<rparr>) d1
      in if length (OnuFlows (Onus (Pons d2 ! i) ! j)) = 1
         then d2\<lparr>Published := Published d2 @
                [PublishedEvent ''Flow-add-received'' (OnuPonPortID onu) (OnuID onu) (OnuSn onu)]\<rparr>
         else d2)"

text \<open>
  The end of \<open>FlowAdd\<close> (olt.go:1277-1285): the flow is sent on the channel of the ONU,
  in a message that carries the IDs of the PON and of the ONU.
\<close>

definition enqueueFlowAdd :: "nat \<Rightarrow> nat \<Rightarrow> Flow \<Rightarrow> OltDevice \<Rightarrow> OltDevice" where
  "enqueueFlowAdd i j flow d =
     updateOnu i j
       (\<lambda>n. n\<lparr>OnuChannel := OnuChannel n @
          [MsgFlowAdd (PonID (Pons d ! i)) (OnuID (Onus (Pons d ! i) ! j)) flow]\<rparr>) d"

text \<open>
  The part of \<open>FlowAdd\<close> that handles a flow of an ONU once the PON (at position \<open>i\<close>)
  and the ONU (at position \<open>j\<close>) are found (olt.go:1240-1285). In this order: the flow is
  rejected when the ONU is disabled; with strict bookkeeping the flow key is recorded on
  the ONU; the flow is validated; the GEM ports and then the Alloc-ID are stored; the
  flow is sent on the ONU's channel. After a panic the state is the one reached before
  the panicking statement.
\<close>

definition addOnuFlow ::
  "OltDevice \<Rightarrow> nat \<Rightarrow> nat \<Rightarrow> FlowKey \<Rightarrow> Flow \<Rightarrow> OltDevice \<times> error option" where
  "addOnuFlow d1 i j flowKey flow =
     (let onu = Onus (Pons d1 ! i) ! j in
      if OnuInternalState onu = OnuStatePonDisabled \<or> OnuInternalState onu = OnuStateDisabled
      then (d1, Some ErrOnuNotReady)
      else
        let d3 = (if \<not> enablePerf d1 then recordOnuFlow d1 i j flowKey else d1)
        in (case validateFlow d3 flow of
              Some err \<Rightarrow> (d3, Some err)
            | None \<Rightarrow>
               (case storeGemPortIdByFlow d3 flow of
                  Inl p \<Rightarrow> (d3, Some p)
                | Inr d4 \<Rightarrow>
                   (case storeAllocId d4 flow of
                      Inl p \<Rightarrow> (d4, Some p)
                    | Inr d5 \<Rightarrow> (enqueueFlowAdd i j flow d5, None)))))"

text \<open>
  \<open>FlowAdd\<close> (olt.go:1180). The result pairs the device after the call with the error
  returned (\<open>None\<close> for nil). With strict bookkeeping the flow is first put into
  \<open>Flows\<close>. When the PON is unknown the error of \<open>GetPonById\<close> is only logged, and the
  call \<open>pon.GetOnuById\<close> on the nil pointer that follows panics.
\<close>

definition FlowAdd :: "OltDevice \<Rightarrow> Flow \<Rightarrow> OltDevice \<times> error option" where
  "FlowAdd d flow =
     (let flowKey = (if \<not> enablePerf d then FlowKey (FlowId flow) else FlowKey 0);
          d1 = (if \<not> enablePerf d then d\<lparr>Flows := (Flows d)(flowKey \<mapsto> flow)\<rparr> else d)
      in if AccessIntfId flow = - 1 then (d1, None)
         else if FlowType flow = ''multicast'' then (d1, None)
         else
           (case GetPonById d1 (AccessIntfId flow) of
              None \<Rightarrow> (d1, Some PanicNilPointer)
            | Some i \<Rightarrow>
               (case GetOnuById (Pons d1 ! i) (OnuId flow) of
                  None \<Rightarrow> (d1, Some ErrOnuNotFound)
                | Some j \<Rightarrow> addOnuFlow d1 i j flowKey flow)))"

text \<open>
  Modelled from the spec: \<open>Onu.DeleteFlow\<close> is declared in onu.go, which is not among the
  sources. Section 4.4 of the spec: when the owning ONU is found, the flow is removed
  from that ONU's list.
\<close>

definition DeleteFlow :: "FlowKey \<Rightarrow> Onu \<Rightarrow> Onu" where
  "DeleteFlow key onu = onu\<lparr>OnuFlows := removeAll key (OnuFlows onu)\<rparr>"

text \<open>
  The end of \<open>FlowRemove\<close> (olt.go:1351): a per-ONU flow is announced on the channel of
  the ONU that \<open>GetOnuByFlowId\<close> finds.
\<close>

definition notifyFlowRemoved :: "OltDevice \<Rightarrow> Flow \<Rightarrow> OltDevice \<times> error option" where
  "notifyFlowRemoved d flow =
     (if AccessIntfId flow = - 1 then (d, None)
      else if FlowType flow = ''multicast'' then (d, None)
      else
        (case GetOnuByFlowId d (FlowId flow) of
           None \<Rightarrow> (d, Some ErrOnuByFlowIdNotFound)
         | Some (i, j) \<Rightarrow>
            (updateOnu i j (\<lambda>n. n\<lparr>OnuChannel := OnuChannel n @ [MsgFlowRemoved flow]\<rparr>) d, None)))"

text \<open>\<open>FlowRemove\<close> (olt.go:1292).\<close>

definition FlowRemove :: "OltDevice \<Rightarrow> Flow \<Rightarrow> OltDevice \<times> error option" where
  "FlowRemove d flow =
     (let d1 = freeAllocId (freeGemPortId d flow) flow in
      if \<not> enablePerf d1 then
        (let flowKey = FlowKey (FlowId flow) in
         case Flows d1 flowKey of
           None \<Rightarrow> (d1, Some ErrFlowNotFound)
         | Some storedFlow \<Rightarrow>
            if AccessIntfId storedFlow \<noteq> - 1 then
              (case GetPonById d1 (AccessIntfId storedFlow) of
                 None \<Rightarrow> (d1, None)
               | Some i \<Rightarrow>
                  (case GetOnuById (Pons d1 ! i) (OnuId storedFlow) of
                     None \<Rightarrow> (d1, None)
                   | Some j \<Rightarrow>
                      let onu = Onus (Pons d1 ! i) ! j;
                          d2 = updateOnu i j (DeleteFlow flowKey) d1;
                          d3 = d2\<lparr>Published := Published d2 @
                                 [PublishedEvent ''Flow-remove-received''
                                    (OnuPonPortID onu) (OnuID onu) (OnuSn onu)]\<rparr>
                      in notifyFlowRemoved (d3\<lparr>Flows := (Flows d3)(flowKey := None)\<rparr>) flow))
            else notifyFlowRemoved (d1\<lparr>Flows := (Flows d1)(flowKey := None)\<rparr>) flow)
      else notifyFlowRemoved d1 flow)"

subsection \<open>ONU activation\<close>

text \<open>Firing an event on the machine of an ONU; a refused event leaves the state.\<close>

definition fireOnu :: "onu_fsm \<Rightarrow> onu_tx \<Rightarrow> Onu \<Rightarrow> Onu" where
  "fireOnu onuFsm tx onu =
     (case onuFsm (OnuInternalState onu) tx of
        None \<Rightarrow> onu
      | Some dst \<Rightarrow> onu\<lparr>OnuInternalState := dst\<rparr>)"

text \<open>
  \<open>ActivateOnu\<close> (olt.go:1004), called with \<open>onu.IntfId\<close>, \<open>onu.OnuId\<close> and
  \<open>onu.SerialNumber\<close>. The two assignments \<open>olt.AllocIDs[IntfId][OnuId] = make(...)\<close> and
  \<open>olt.GemPortIDs[IntfId][OnuId] = make(...)\<close> write into the PON's map and panic when
  that map is nil. The errors of \<open>GetPonById\<close> and \<open>GetOnuBySn\<close> are dropped, so an
  unknown PON or serial number is a nil pointer at the calls that follow.
\<close>

definition ActivateOnu ::
  "onu_fsm \<Rightarrow> OltDevice \<Rightarrow> uint32 \<Rightarrow> uint32 \<Rightarrow> string \<Rightarrow> OltDevice \<times> error option" where
  "ActivateOnu onuFsm d intfId onuId sn =
     (let pon = GetPonById d intfId in
      case AllocIDs d intfId of
        None \<Rightarrow> (d, Some PanicNilMap)
      | Some allocOnus \<Rightarrow>
         let d1 = d\<lparr>AllocIDs := (AllocIDs d)(intfId \<mapsto> allocOnus(onuId \<mapsto> Map.empty))\<rparr> in
         (case GemPortIDs d1 intfId of
            None \<Rightarrow> (d1, Some PanicNilMap)
          | Some gemOnus \<Rightarrow>
             let d2 = d1\<lparr>GemPortIDs := (GemPortIDs d1)(intfId \<mapsto> gemOnus(onuId \<mapsto> Map.empty))\<rparr> in
             (case pon of
                None \<Rightarrow> (d2, Some PanicNilPointer)
              | Some i \<Rightarrow>
                 (case GetOnuBySn (Pons d2 ! i) sn of
                    None \<Rightarrow> (d2, Some PanicNilPointer)
                  | Some j \<Rightarrow>
                     let d3 = d2\<lparr>Published := Published d2 @
                                [PublishedEvent ''ONU-activate-indication-received''
                                   intfId onuId (OnuSn (Onus (Pons d2 ! i) ! j))]\<rparr>;
                         d4 = updateOnu i j (\<lambda>n. n\<lparr>OnuID := onuId\<rparr>) d3
                     in (updateOnu i j (fireOnu onuFsm OnuTxEnable) d4, None)))))"

subsection \<open>The InternalState machine of the OLT and the reboot\<close>

text \<open>
  The transitions declared in \<open>CreateOLT\<close> (olt.go:180), as the lookup
  \<open>transitions[eKey{event, current}]\<close> of the fsm library: \<open>None\<close> when the pair of
  current state and event is not declared.
\<close>

fun oltTransition :: "olt_state \<Rightarrow> olt_tx \<Rightarrow> olt_state option" where
  "oltTransition OltInternalStateCreated OltInternalTxInitialize = Some OltInternalStateInitialized"
| "oltTransition OltInternalStateDeleted OltInternalTxInitialize = Some OltInternalStateInitialized"
| "oltTransition OltInternalStateInitialized OltInternalTxEnable = Some OltInternalStateEnabled"
| "oltTransition OltInternalStateDisabled OltInternalTxEnable = Some OltInternalStateEnabled"
| "oltTransition OltInternalStateEnabled OltInternalTxDisable = Some OltInternalStateDisabled"
| "oltTransition OltInternalStateDisabled OltInternalTxDelete = Some OltInternalStateDeleted"
| "oltTransition OltInternalStateEnabled OltInternalTxDelete = Some OltInternalStateDeleted"
| "oltTransition _ _ = None"

text \<open>
  \<open>InitOlt\<close> (olt.go:321), the callback on entering \<open>initialized\<close>. A server that is
  still running ends the process (\<open>oltLogger.Fatal\<close>); starting the server is taken to
  succeed. \<open>o.Nnis[0]\<close> panics on a device without NNI. The last loop gives every index
  of \<open>o.Pons\<close> a new, empty map in both ledgers.
\<close>

definition resetPonMaps :: "nat \<Rightarrow> ledger \<Rightarrow> ledger" where
  "resetPonMaps n L = fold (\<lambda>ponId M. M(of_nat ponId \<mapsto> Map.empty)) [0..<n] L"

definition InitOlt :: "OltDevice \<Rightarrow> OltDevice \<times> error option" where
  "InitOlt d =
     (if OltServer d then (d, Some FatalServerRunning)
      else
        let d1 = d\<lparr>OltServer := True, channel := ChanOpen\<rparr> in
        (case Nnis d1 of
           [] \<Rightarrow> (d1, Some PanicIndexOutOfRange)
         | nni # nnis \<Rightarrow>
            let d2 = d1\<lparr>Nnis := nni\<lparr>NniOperState := OperStateDown\<rparr> # nnis\<rparr>
            in (d2\<lparr>AllocIDs := resetPonMaps (length (Pons d2)) (AllocIDs d2),
                    GemPortIDs := resetPonMaps (length (Pons d2)) (GemPortIDs d2)\<rparr>, None)))"

text \<open>
  \<open>o.InternalState.Event(tx)\<close>: an undeclared pair of state and event returns an error
  and changes nothing; otherwise the state is set and the callbacks registered in
  \<open>CreateOLT\<close> (olt.go:187) run: \<open>InitOlt\<close> on entering \<open>initialized\<close>,
  \<open>clearAllResources\<close> on entering \<open>deleted\<close>.
\<close>

definition InternalStateEvent :: "OltDevice \<Rightarrow> olt_tx \<Rightarrow> OltDevice \<times> error option" where
  "InternalStateEvent d tx =
     (case oltTransition (InternalState d) tx of
        None \<Rightarrow> (d, Some ErrInvalidEvent)
      | Some dst \<Rightarrow>
         let d1 = d\<lparr>InternalState := dst\<rparr> in
         if dst = OltInternalStateInitialized then InitOlt d1
         else if dst = OltInternalStateDeleted then (clearAllResources d1, None)
         else (d1, None))"

text \<open>The loops of \<open>RestartOLT\<close> that fire \<open>OnuTxDisable\<close> on every ONU of every PON.\<close>

definition disableOnus :: "onu_fsm \<Rightarrow> OltDevice \<Rightarrow> OltDevice" where
  "disableOnus onuFsm d =
     d\<lparr>Pons := map (\<lambda>pon. pon\<lparr>Onus := map (fireOnu onuFsm OnuTxDisable) (Onus pon)\<rparr>) (Pons d)\<rparr>"

text \<open>
  \<open>RestartOLT\<close> (olt.go:347). \<open>now\<close> is the value of \<open>time.Now().Unix()\<close> read at
  olt.go:427, after the two sleeps; the signature is its conversion to \<open>uint32\<close>. The
  soft and the hard reboot differ in their log messages only. \<open>close\<close> panics on a nil
  or closed channel, and calling the nil \<open>enableContextCancel\<close> panics.
\<close>

definition RestartOLT :: "onu_fsm \<Rightarrow> int \<Rightarrow> OltDevice \<Rightarrow> OltDevice \<times> error option" where
  "RestartOLT onuFsm now d =
     (let d1 = d\<lparr>PreviouslyConnected := False\<rparr> in
      case InternalStateEvent d1 OltInternalTxDelete of
        (d2, Some err) \<Rightarrow> (d2, Some err)
      | (d2, None) \<Rightarrow>
         let d3 = disableOnus onuFsm d2;
             d4 = d3\<lparr>OltServer := False\<rparr>
         in if channel d4 \<noteq> ChanOpen then (d4, Some PanicCloseChannel)
            else
              let d5 = d4\<lparr>channel := ChanClosed\<rparr> in
              if enableContext d5 = CtxNil then (d5, Some PanicNilPointer)
              else
                let d6 = d5\<lparr>enableContext := CtxCanceled\<rparr>;
                    d7 = d6\<lparr>signature := word_of_int now\<rparr>
                in InternalStateEvent d7 OltInternalTxInitialize)"

text \<open>\<open>HeartbeatCheck\<close> (olt.go:1383) returns the current signature.\<close>

definition HeartbeatCheck :: "OltDevice \<Rightarrow> uint32" where
  "HeartbeatCheck d = signature d"

subsection \<open>The dispatch loop\<close>











section \<open>Sequences of operations and the properties of the ledgers\<close>

text \<open>
  A store, a free or a clear on the ledgers. On the Alloc-ID ledger they are
  \<open>storeAllocId\<close>, \<open>freeAllocId\<close> and \<open>clearAllResources\<close>; on the GEM-port-ID ledger
  \<open>storeGemPortIdByFlow\<close>, \<open>freeGemPortId\<close> and \<open>clearAllResources\<close>. A store that panics
  ends the sequence with its error.
\<close>

datatype ledger_op = OpStore Flow | OpFree Flow | OpClear

fun applyAllocOps :: "OltDevice \<Rightarrow> ledger_op list \<Rightarrow> error + OltDevice" where
  "applyAllocOps d [] = Inr d"
| "applyAllocOps d (OpStore flow # ops) =
     (case storeAllocId d flow of Inl e \<Rightarrow> Inl e | Inr d' \<Rightarrow> applyAllocOps d' ops)"
| "applyAllocOps d (OpFree flow # ops) = applyAllocOps (freeAllocId d flow) ops"
| "applyAllocOps d (OpClear # ops) = applyAllocOps (clearAllResources d) ops"

fun applyGemOps :: "OltDevice \<Rightarrow> ledger_op list \<Rightarrow> error + OltDevice" where
  "applyGemOps d [] = Inr d"
| "applyGemOps d (OpStore flow # ops) =
     (case storeGemPortIdByFlow d flow of Inl e \<Rightarrow> Inl e | Inr d' \<Rightarrow> applyGemOps d' ops)"
| "applyGemOps d (OpFree flow # ops) = applyGemOps (freeGemPortId d flow) ops"
| "applyGemOps d (OpClear # ops) = applyGemOps (clearAllResources d) ops"



text \<open>The flow IDs that some entry of a ledger refers to.\<close>

definition ledgerFlowIds :: "ledger \<Rightarrow> uint64 set" where
  "ledgerFlowIds L = {f. \<exists>p n u r s. lookup4 L p n u r = Some s \<and> f \<in> s}"

text \<open>An entry exists only while its set of flow IDs is not empty.\<close>

definition nonEmptyFlowSets :: "ledger \<Rightarrow> bool" where
  "nonEmptyFlowSets L = (\<forall>p n u r s. lookup4 L p n u r = Some s \<longrightarrow> s \<noteq> {})"

text \<open>No resource ID has entries under two different ONUs of the same PON.\<close>

definition exclusiveOwner :: "ledger \<Rightarrow> bool" where
  "exclusiveOwner L =
     (\<forall>p n n' u u' r. lookup4 L p n u r \<noteq> None \<and> lookup4 L p n' u' r \<noteq> None \<longrightarrow> n = n')"

text \<open>The GEM ports a flow asks for: \<open>PbitToGemport\<close>'s when replicated, else \<open>GemportId\<close>.\<close>

definition flowGems :: "Flow \<Rightarrow> int32 set" where
  "flowGems flow =
     (if ReplicateFlow flow then set (map snd (PbitToGemport flow)) else {GemportId flow})"

text \<open>Both properties, on both ledgers of a device.\<close>

definition ledgersOk :: "OltDevice \<Rightarrow> bool" where
  "ledgersOk d =
     (nonEmptyFlowSets (AllocIDs d) \<and> nonEmptyFlowSets (GemPortIDs d)
      \<and> exclusiveOwner (AllocIDs d) \<and> exclusiveOwner (GemPortIDs d))"

text \<open>
  The calls that change the ledgers, as the controller issues them. A panic (or the
  fatal exit) ends the run in the state it was raised in; any other error is returned
  to the caller and the device goes on.
\<close>

datatype command =
    CmdFlowAdd Flow
  | CmdFlowRemove Flow
  | CmdActivateOnu uint32 uint32 string
  | CmdRestartOLT int

definition execCommand :: "onu_fsm \<Rightarrow> OltDevice \<Rightarrow> command \<Rightarrow> OltDevice \<times> error option" where
  "execCommand onuFsm d c =
     (case c of
        CmdFlowAdd flow \<Rightarrow> FlowAdd d flow
      | CmdFlowRemove flow \<Rightarrow> FlowRemove d flow
      | CmdActivateOnu intfId onuId sn \<Rightarrow> ActivateOnu onuFsm d intfId onuId sn
      | CmdRestartOLT now \<Rightarrow> RestartOLT onuFsm now d)"

fun runCommands :: "onu_fsm \<Rightarrow> OltDevice \<Rightarrow> command list \<Rightarrow> OltDevice" where
  "runCommands onuFsm d [] = d"
| "runCommands onuFsm d (c # cs) =
     (case execCommand onuFsm d c of
        (d', None) \<Rightarrow> runCommands onuFsm d' cs
      | (d', Some e) \<Rightarrow> if isPanic e then d' else runCommands onuFsm d' cs)"

subsection \<open>Notions for the properties of \<open>FlowAdd\<close>\<close>

text \<open>A flow holds an Alloc-ID, or a GEM port, when its flow ID is in the entry at its key.\<close>

definition allocStored :: "OltDevice \<Rightarrow> Flow \<Rightarrow> bool" where
  "allocStored d flow =
     (case lookup4 (AllocIDs d) (AccessIntfId flow) (OnuId flow) (PortNo flow) (AllocId flow) of
        None \<Rightarrow> False
      | Some flows \<Rightarrow> FlowId flow \<in> flows)"

definition gemStored :: "OltDevice \<Rightarrow> Flow \<Rightarrow> int32 \<Rightarrow> bool" where
  "gemStored d flow gem =
     (case lookup4 (GemPortIDs d) (AccessIntfId flow) (OnuId flow) (PortNo flow) gem of
        None \<Rightarrow> False
      | Some flows \<Rightarrow> FlowId flow \<in> flows)"

text \<open>
  The flow passes the checks that \<open>FlowAdd\<close> makes before it looks at the ledgers: it has
  an access interface, is not multicast, its PON is the \<open>i\<close>-th PON, and its ONU is the
  \<open>j\<close>-th ONU of that PON.
\<close>

definition targetsOnu :: "OltDevice \<Rightarrow> Flow \<Rightarrow> nat \<Rightarrow> nat \<Rightarrow> bool" where
  "targetsOnu d flow i j =
     (AccessIntfId flow \<noteq> - 1 \<and> FlowType flow \<noteq> ''multicast''
      \<and> GetPonById d (AccessIntfId flow) = Some i
      \<and> GetOnuById (Pons d ! i) (OnuId flow) = Some j)"

text \<open>
  The device as \<open>FlowAdd\<close> has it when it calls \<open>validateFlow\<close> for a flow of the \<open>j\<close>-th
  ONU of the \<open>i\<close>-th PON: with strict bookkeeping the flow is in \<open>Flows\<close> and its key is
  recorded on the ONU (olt.go:1194-1197 and 1254-1260); otherwise nothing has changed.
\<close>

definition recordedFlow :: "OltDevice \<Rightarrow> Flow \<Rightarrow> nat \<Rightarrow> nat \<Rightarrow> OltDevice" where
  "recordedFlow d flow i j =
     (if \<not> enablePerf d
      then recordOnuFlow (d\<lparr>Flows := (Flows d)(FlowKey (FlowId flow) \<mapsto> flow)\<rparr>) i j
             (FlowKey (FlowId flow))
      else d)"

subsection \<open>Notions for the order of the indications\<close>



section \<open>A device for the examples\<close>

text \<open>
  One PON with ID 0 and two enabled ONUs with IDs 1 and 2, one NNI, strict flow
  bookkeeping (\<open>enablePerf\<close> false), the OLT enabled by a session, and both ledgers as
  \<open>InitOlt\<close> and \<open>ActivateOnu\<close> leave them: a map for the PON with an empty map for each
  ONU. The flows are those of the scenario of section 8 of the spec.
\<close>

definition exampleOnu :: "uint32 \<Rightarrow> string \<Rightarrow> Onu" where
  "exampleOnu onuId sn =
     \<lparr>OnuID = onuId, OnuPonPortID = 0, OnuSn = sn, OnuInternalState = OnuStateEnabled,
      OnuFlows = [], OnuFlowIds = [], OnuChannel = []\<rparr>"

definition exampleLedger :: ledger where
  "exampleLedger = [0 \<mapsto> [1 \<mapsto> Map.empty, 2 \<mapsto> Map.empty]]"

definition exampleOlt :: OltDevice where
  "exampleOlt =
     \<lparr>InternalState = OltInternalStateEnabled, OperStateFsm = OperStateUp,
      enablePerf = False, PreviouslyConnected = True, OltServer = True,
      channel = ChanOpen, enableContext = CtxLive, NniSpeed = 0, Flows = Map.empty,
      Pons = [\<lparr>PonID = 0, PonType = ''pon'', PonOperState = OperStateUp,
               Onus = [exampleOnu 1 ''BBSM00000001'', exampleOnu 2 ''BBSM00000002'']\<rparr>],
      Nnis = [\<lparr>NniID = 0, NniType = ''nni'', NniOperState = OperStateUp\<rparr>],
      AllocIDs = exampleLedger, GemPortIDs = exampleLedger,
      signature = 1000, Published = [], OpenoltStream = []\<rparr>"

definition exampleFlow :: "int32 \<Rightarrow> uint64 \<Rightarrow> int32 \<Rightarrow> int32 \<Rightarrow> Flow" where
  "exampleFlow onuId flowId allocId gemId =
     \<lparr>AccessIntfId = 0, OnuId = onuId, FlowId = flowId, FlowType = ''upstream'',
      AllocId = allocId, GemportId = gemId, PortNo = 16, ReplicateFlow = False,
      PbitToGemport = []\<rparr>"

text \<open>A machine for the ONUs of the examples: both events are accepted in every state.\<close>

definition exampleOnuFsm :: onu_fsm where
  "exampleOnuFsm s tx = (case tx of OnuTxEnable \<Rightarrow> Some OnuStateEnabled
                                  | OnuTxDisable \<Rightarrow> Some OnuStateDisabled)"

text \<open>The device of the examples after the first flow of the scenario is added.\<close>

definition exampleOlt1 :: OltDevice where
  "exampleOlt1 = fst (FlowAdd exampleOlt (exampleFlow 1 1 100 50))"

text \<open>The same device with its second ONU disabled.\<close>

definition exampleOlt1Disabled :: OltDevice where
  "exampleOlt1Disabled =
     updateOnu 0 1 (\<lambda>n. n\<lparr>OnuInternalState := OnuStateDisabled\<rparr>) exampleOlt1"

text \<open>The device of the examples, holding the first flow, after the OLT was disabled.\<close>

definition exampleOltDisabled :: OltDevice where
  "exampleOltDisabled =
     exampleOlt1\<lparr>InternalState := OltInternalStateDisabled, OperStateFsm := OperStateDown\<rparr>"





text \<open>
  The device of the examples with a GEM-port ledger, respectively an Alloc-ID ledger,
  that has no map for the PON and its ONUs, as it is before \<open>InitOlt\<close> and \<open>ActivateOnu\<close>
  have run: a store for an ONU then panics.
\<close>

definition exampleOltNoGemMaps :: OltDevice where
  "exampleOltNoGemMaps = exampleOlt\<lparr>GemPortIDs := Map.empty\<rparr>"

definition exampleOltNoAllocMaps :: OltDevice where
  "exampleOltNoAllocMaps = exampleOlt\<lparr>AllocIDs := Map.empty\<rparr>"

section \<open>Lemmas about the ledgers\<close>

lemma lookup4_storeResource:
  assumes "storeResource L p n u r f = Inr L'"
  shows "lookup4 L' p' n' u' r' =
     (if p' = p \<and> n' = n \<and> u' = u \<and> r' = r
      then Some (insert f (case lookup4 L p n u r of None \<Rightarrow> {} | Some s \<Rightarrow> s))
      else lookup4 L p' n' u' r')"
proof -
  from assms obtain onus ports where
    Lp: "L p = Some onus" and on: "onus n = Some ports"
    by (auto simp: storeResource_def split: option.splits)
  define res where "res = (case ports u of None \<Rightarrow> Map.empty | Some x \<Rightarrow> x)"
  define flows where "flows = (case res r of None \<Rightarrow> {} | Some s \<Rightarrow> s)"
  have L': "L' = L(p \<mapsto> onus(n \<mapsto> ports(u \<mapsto> res(r \<mapsto> insert f flows))))"
    using assms Lp on by (simp add: storeResource_def res_def flows_def Let_def)
  have fl: "flows = (case lookup4 L p n u r of None \<Rightarrow> {} | Some s \<Rightarrow> s)"
    by (simp add: flows_def res_def lookup4_def Lp on split: option.splits)
  show ?thesis
    unfolding L' fl [symmetric]
    by (simp add: lookup4_def Lp on res_def split: option.splits)
qed

lemma lookup4_freeResource:
  "lookup4 (freeResource L f) p n u r =
     (case lookup4 L p n u r of None \<Rightarrow> None
      | Some s \<Rightarrow> if s = {} then Some s else if s - {f} = {} then None else Some (s - {f}))"
  by (simp add: freeResource_def freeFlows_def lookup4_def split: option.splits)

lemma lookup4_empty [simp]: "lookup4 Map.empty p n u r = None"
  by (simp add: lookup4_def)

lemma nonEmpty_store:
  "storeResource L p n u r f = Inr L' \<Longrightarrow> nonEmptyFlowSets L \<Longrightarrow> nonEmptyFlowSets L'"
  unfolding nonEmptyFlowSets_def
  by (auto simp: lookup4_storeResource split: if_splits)

lemma nonEmpty_free: "nonEmptyFlowSets L \<Longrightarrow> nonEmptyFlowSets (freeResource L f)"
  unfolding nonEmptyFlowSets_def
  by (auto simp: lookup4_freeResource split: option.splits if_splits)

lemma nonEmpty_empty [simp]: "nonEmptyFlowSets Map.empty"
  by (simp add: nonEmptyFlowSets_def)


lemma flowIds_free: "ledgerFlowIds (freeResource L f) \<subseteq> ledgerFlowIds L - {f}"
proof
  fix x assume "x \<in> ledgerFlowIds (freeResource L f)"
  then obtain p n u r s where s: "lookup4 (freeResource L f) p n u r = Some s" and x: "x \<in> s"
    by (auto simp: ledgerFlowIds_def)
  from s obtain t where t: "lookup4 L p n u r = Some t" and st: "s = t \<or> s = t - {f}" and
      ne: "t \<noteq> {}"
    using x by (auto simp: lookup4_freeResource split: option.splits if_splits)
  from s t x have "x \<noteq> f"
    by (auto simp: lookup4_freeResource split: if_splits)
  moreover from st x have "x \<in> t" by auto
  ultimately show "x \<in> ledgerFlowIds L - {f}"
    using t unfolding ledgerFlowIds_def by blast
qed

lemma flowIds_empty [simp]: "ledgerFlowIds Map.empty = {}"
  by (simp add: ledgerFlowIds_def)



lemma storeAllocId_Inr:
  assumes "storeAllocId d flow = Inr d'"
  shows "storeResource (AllocIDs d) (AccessIntfId flow) (OnuId flow) (PortNo flow)
           (AllocId flow) (FlowId flow) = Inr (AllocIDs d')"
    and "d' = d\<lparr>AllocIDs := AllocIDs d'\<rparr>"
  using assms by (auto simp: storeAllocId_def split: sum.splits)

lemma storeGemPortId_Inr:
  assumes "storeGemPortId d p n u g f = Inr d'"
  shows "storeResource (GemPortIDs d) p n u g f = Inr (GemPortIDs d')"
    and "d' = d\<lparr>GemPortIDs := GemPortIDs d'\<rparr>"
  using assms by (auto simp: storeGemPortId_def split: sum.splits)

lemma storeGemPorts_nonEmpty:
  "storeGemPorts d flow gems = Inr d' \<Longrightarrow> nonEmptyFlowSets (GemPortIDs d)
     \<Longrightarrow> nonEmptyFlowSets (GemPortIDs d')"
proof (induction gems arbitrary: d)
  case Nil
  then show ?case by simp
next
  case (Cons g gems)
  from Cons.prems(1) obtain d1 where
    d1: "storeGemPortId d (AccessIntfId flow) (OnuId flow) (PortNo flow) g (FlowId flow) = Inr d1"
    and rest: "storeGemPorts d1 flow gems = Inr d'"
    by (auto split: sum.splits)
  from storeGemPortId_Inr(1) [OF d1] Cons.prems(2) have "nonEmptyFlowSets (GemPortIDs d1)"
    by (rule nonEmpty_store)
  with rest show ?case by (rule Cons.IH)
qed


lemma storeGemPortIdByFlow_nonEmpty:
  "storeGemPortIdByFlow d flow = Inr d' \<Longrightarrow> nonEmptyFlowSets (GemPortIDs d)
     \<Longrightarrow> nonEmptyFlowSets (GemPortIDs d')"
  unfolding storeGemPortIdByFlow_def
  by (auto split: if_splits intro: storeGemPorts_nonEmpty nonEmpty_store storeGemPortId_Inr(1))


lemma applyAllocOps_nonEmpty:
  "applyAllocOps d ops = Inr d' \<Longrightarrow> nonEmptyFlowSets (AllocIDs d)
     \<Longrightarrow> nonEmptyFlowSets (AllocIDs d')"
proof (induction d ops rule: applyAllocOps.induct)
  case (1 d)
  then show ?case by simp
next
  case (2 d flow ops)
  from "2.prems"(1) obtain d1 where d1: "storeAllocId d flow = Inr d1"
    and rest: "applyAllocOps d1 ops = Inr d'"
    by (auto split: sum.splits)
  from storeAllocId_Inr(1) [OF d1] "2.prems"(2) have "nonEmptyFlowSets (AllocIDs d1)"
    by (rule nonEmpty_store)
  with "2.IH" [OF d1 rest] show ?case .
next
  case (3 d flow ops)
  then show ?case by (simp add: freeAllocId_def nonEmpty_free)
next
  case (4 d ops)
  then show ?case by (simp add: clearAllResources_def)
qed

lemma applyGemOps_nonEmpty:
  "applyGemOps d ops = Inr d' \<Longrightarrow> nonEmptyFlowSets (GemPortIDs d)
     \<Longrightarrow> nonEmptyFlowSets (GemPortIDs d')"
proof (induction d ops rule: applyGemOps.induct)
  case (1 d)
  then show ?case by simp
next
  case (2 d flow ops)
  from "2.prems"(1) obtain d1 where d1: "storeGemPortIdByFlow d flow = Inr d1"
    and rest: "applyGemOps d1 ops = Inr d'"
    by (auto split: sum.splits)
  from d1 "2.prems"(2) have "nonEmptyFlowSets (GemPortIDs d1)"
    by (rule storeGemPortIdByFlow_nonEmpty)
  with "2.IH" [OF d1 rest] show ?case .
next
  case (3 d flow ops)
  then show ?case by (simp add: freeGemPortId_def nonEmpty_free)
next
  case (4 d ops)
  then show ?case by (simp add: clearAllResources_def)
qed



lemma no_entries_nonEmpty: "ledgerEntries L = {} \<Longrightarrow> nonEmptyFlowSets L"
  by (auto simp: ledgerEntries_def nonEmptyFlowSets_def)

section \<open>The ledger returns to empty\<close>



section \<open>Lemmas about the validation of a flow\<close>

lemma scan_iff:
  "(\<exists>onuId \<in> dom pv. onuId \<noteq> x \<and>
      (case pv onuId of None \<Rightarrow> False
       | Some onu \<Rightarrow> \<exists>uniId \<in> dom onu.
           (case onu uniId of None \<Rightarrow> False
            | Some uni \<Rightarrow> \<exists>r \<in> dom uni. Q r))) =
   (\<exists>n u r onu uni s. n \<noteq> x \<and> pv n = Some onu \<and> onu u = Some uni \<and> uni r = Some s \<and> Q r)"
  (is "?lhs = ?rhs")
proof
  assume ?lhs
  then obtain n where n: "n \<in> dom pv" "n \<noteq> x" and
    c: "case pv n of None \<Rightarrow> False
        | Some onu \<Rightarrow> \<exists>uniId \<in> dom onu.
           (case onu uniId of None \<Rightarrow> False | Some uni \<Rightarrow> \<exists>r \<in> dom uni. Q r)"
    by blast
  from n obtain onu where onu: "pv n = Some onu" by blast
  with c obtain u where u: "u \<in> dom onu" and
    c2: "case onu u of None \<Rightarrow> False | Some uni \<Rightarrow> \<exists>r \<in> dom uni. Q r"
    by auto
  from u obtain uni where uni: "onu u = Some uni" by blast
  with c2 obtain r s where "uni r = Some s" "Q r" by auto
  with n onu uni show ?rhs by blast
next
  assume ?rhs
  then obtain n u r onu uni s where
    h: "n \<noteq> x" "pv n = Some onu" "onu u = Some uni" "uni r = Some s" "Q r"
    by blast
  have "\<exists>r \<in> dom uni. Q r" using h by blast
  then have "\<exists>uniId \<in> dom onu.
           (case onu uniId of None \<Rightarrow> False | Some uni \<Rightarrow> \<exists>r \<in> dom uni. Q r)"
    using h(3) by (intro bexI [of _ u]) auto
  then show ?lhs
    using h(1,2) by (intro bexI [of _ n]) auto
qed

lemma lookup4_Some_iff:
  "(lookup4 L p n u r \<noteq> None) =
   (\<exists>pv onu uni s. L p = Some pv \<and> pv n = Some onu \<and> onu u = Some uni \<and> uni r = Some s)"
  by (auto simp: lookup4_def split: option.splits)

lemma gemInUse_iff:
  "(case L p of None \<Rightarrow> False | Some ponValues \<Rightarrow> gemInUse ponValues flow) =
   (\<exists>n u r. n \<noteq> OnuId flow \<and> r \<in> flowGems flow \<and> lookup4 L p n u r \<noteq> None)"
proof (cases "L p")
  case None
  then show ?thesis by (simp add: lookup4_def)
next
  case (Some pv)
  have q: "(if ReplicateFlow flow
            then \<exists>flowGem \<in> set (map snd (PbitToGemport flow)). gem = flowGem
            else gem = GemportId flow) = (gem \<in> flowGems flow)" for gem
    by (auto simp: flowGems_def)
  have "gemInUse pv flow =
     (\<exists>n u r onu uni s. n \<noteq> OnuId flow \<and> pv n = Some onu \<and> onu u = Some uni
         \<and> uni r = Some s \<and> r \<in> flowGems flow)"
    unfolding gemInUse_def q by (rule scan_iff)
  also have "\<dots> = (\<exists>n u r. n \<noteq> OnuId flow \<and> r \<in> flowGems flow \<and> lookup4 L p n u r \<noteq> None)"
    unfolding lookup4_Some_iff Some option.inject by (safe; blast)
  finally show ?thesis by (simp add: Some)
qed

lemma allocInUse_iff:
  "(case L p of None \<Rightarrow> False | Some ponValues \<Rightarrow> allocInUse ponValues flow) =
   (\<exists>n u. n \<noteq> OnuId flow \<and> lookup4 L p n u (AllocId flow) \<noteq> None)"
proof (cases "L p")
  case None
  then show ?thesis by (simp add: lookup4_def)
next
  case (Some pv)
  have "allocInUse pv flow =
     (\<exists>n u r onu uni s. n \<noteq> OnuId flow \<and> pv n = Some onu \<and> onu u = Some uni
         \<and> uni r = Some s \<and> r = AllocId flow)"
    unfolding allocInUse_def by (rule scan_iff)
  also have "\<dots> = (\<exists>n u. n \<noteq> OnuId flow \<and> lookup4 L p n u (AllocId flow) \<noteq> None)"
    unfolding lookup4_Some_iff Some option.inject by (safe; blast)
  finally show ?thesis by (simp add: Some)
qed

lemma validateFlow_cases:
  "validateFlow d flow =
     (if \<exists>n u r. n \<noteq> OnuId flow \<and> r \<in> flowGems flow
            \<and> lookup4 (GemPortIDs d) (AccessIntfId flow) n u r \<noteq> None
      then Some ErrGemInUse
      else if \<exists>n u. n \<noteq> OnuId flow
            \<and> lookup4 (AllocIDs d) (AccessIntfId flow) n u (AllocId flow) \<noteq> None
      then Some ErrAllocInUse
      else None)"
  unfolding validateFlow_def gemInUse_iff allocInUse_iff by simp

section \<open>Lemmas about exclusive ownership\<close>

lemma exclusive_store:
  assumes st: "storeResource L p n u r f = Inr L'"
    and ex: "exclusiveOwner L"
    and free: "\<And>n' u'. n' \<noteq> n \<Longrightarrow> lookup4 L p n' u' r = None"
  shows "exclusiveOwner L'"
  unfolding exclusiveOwner_def
proof (intro allI impI)
  fix p1 n1 n2 u1 u2 r1
  assume a: "lookup4 L' p1 n1 u1 r1 \<noteq> None \<and> lookup4 L' p1 n2 u2 r1 \<noteq> None"
  show "n1 = n2"
  proof (rule ccontr)
    assume ne: "n1 \<noteq> n2"
    have k1: "lookup4 L p1 n1 u1 r1 \<noteq> None \<or> (p1 = p \<and> n1 = n \<and> r1 = r)"
      using a by (auto simp: lookup4_storeResource [OF st] split: if_splits)
    have k2: "lookup4 L p1 n2 u2 r1 \<noteq> None \<or> (p1 = p \<and> n2 = n \<and> r1 = r)"
      using a by (auto simp: lookup4_storeResource [OF st] split: if_splits)
    from k1 k2 ne ex free show False
      unfolding exclusiveOwner_def by metis
  qed
qed

lemma exclusive_mono:
  assumes "exclusiveOwner L"
    and "\<And>p n u r. lookup4 L' p n u r \<noteq> None \<Longrightarrow> lookup4 L p n u r \<noteq> None"
  shows "exclusiveOwner L'"
  unfolding exclusiveOwner_def
proof (intro allI impI)
  fix p n n' u u' r
  assume "lookup4 L' p n u r \<noteq> None \<and> lookup4 L' p n' u' r \<noteq> None"
  then have "lookup4 L p n u r \<noteq> None \<and> lookup4 L p n' u' r \<noteq> None"
    using assms(2) by blast
  with assms(1) show "n = n'"
    unfolding exclusiveOwner_def by blast
qed

lemma exclusive_free: "exclusiveOwner L \<Longrightarrow> exclusiveOwner (freeResource L f)"
  by (erule exclusive_mono) (auto simp: lookup4_freeResource split: option.splits if_splits)

lemma exclusive_empty [simp]: "exclusiveOwner Map.empty"
  by (simp add: exclusiveOwner_def)

lemma lookup4_reset_onu:
  "L p = Some onus \<Longrightarrow>
   lookup4 (L(p \<mapsto> onus(n \<mapsto> Map.empty))) p' n' u r =
     (if p' = p \<and> n' = n then None else lookup4 L p' n' u r)"
  by (simp add: lookup4_def)

lemma lookup4_reset_pon:
  "lookup4 (L(p \<mapsto> Map.empty)) p' n u r = (if p' = p then None else lookup4 L p' n u r)"
  by (simp add: lookup4_def)

lemma resetPonMaps_0 [simp]: "resetPonMaps 0 L = L"
  by (simp add: resetPonMaps_def)

lemma resetPonMaps_Suc:
  "resetPonMaps (Suc k) L = (resetPonMaps k L)(of_nat k \<mapsto> Map.empty)"
  by (simp add: resetPonMaps_def)

lemma lookup4_resetPonMaps:
  "lookup4 (resetPonMaps k L) p n u r \<noteq> None \<Longrightarrow> lookup4 L p n u r \<noteq> None"
proof (induction k)
  case 0
  then show ?case by simp
next
  case (Suc k)
  from Suc.prems have "lookup4 (resetPonMaps k L) p n u r \<noteq> None"
    unfolding resetPonMaps_Suc lookup4_reset_pon by (simp split: if_splits)
  then show ?case by (rule Suc.IH)
qed

lemma lookup4_resetPonMaps_empty:
  "ledgerEntries L = {} \<Longrightarrow> ledgerEntries (resetPonMaps k L) = {}"
proof -
  assume e: "ledgerEntries L = {}"
  have "lookup4 (resetPonMaps k L) p n u r = None" for p n u r
  proof (rule ccontr)
    assume "lookup4 (resetPonMaps k L) p n u r \<noteq> None"
    then have "lookup4 L p n u r \<noteq> None" by (rule lookup4_resetPonMaps)
    with e show False by (auto simp: ledgerEntries_def)
  qed
  then show ?thesis by (simp add: ledgerEntries_def)
qed

lemma updateOnu_frame [simp]:
  "AllocIDs (updateOnu i j g d) = AllocIDs d"
  "GemPortIDs (updateOnu i j g d) = GemPortIDs d"
  "Flows (updateOnu i j g d) = Flows d"
  "Published (updateOnu i j g d) = Published d"
  "enablePerf (updateOnu i j g d) = enablePerf d"
  "signature (updateOnu i j g d) = signature d"
  "InternalState (updateOnu i j g d) = InternalState d"
  "OpenoltStream (updateOnu i j g d) = OpenoltStream d"
  by (simp_all add: updateOnu_def)

lemma storeGemPortId_frame:
  "storeGemPortId d p n u g f = Inr d' \<Longrightarrow> \<exists>L. d' = d\<lparr>GemPortIDs := L\<rparr>"
  by (auto simp: storeGemPortId_def split: sum.splits)

lemma storeAllocId_frame:
  "storeAllocId d flow = Inr d' \<Longrightarrow> \<exists>L. d' = d\<lparr>AllocIDs := L\<rparr>"
  by (auto simp: storeAllocId_def split: sum.splits)

lemma storeGemPorts_frame:
  "storeGemPorts d flow gems = Inr d' \<Longrightarrow> \<exists>L. d' = d\<lparr>GemPortIDs := L\<rparr>"
proof (induction gems arbitrary: d)
  case Nil
  then show ?case by (intro exI [of _ "GemPortIDs d"]) simp
next
  case (Cons g gems)
  from Cons.prems obtain d1 where
    d1: "storeGemPortId d (AccessIntfId flow) (OnuId flow) (PortNo flow) g (FlowId flow) = Inr d1"
    and rest: "storeGemPorts d1 flow gems = Inr d'"
    by (auto split: sum.splits)
  from storeGemPortId_frame [OF d1] obtain L1 where L1: "d1 = d\<lparr>GemPortIDs := L1\<rparr>" ..
  from Cons.IH [OF rest] obtain L where "d' = d1\<lparr>GemPortIDs := L\<rparr>" ..
  with L1 show ?case by (intro exI [of _ L]) simp
qed

lemma storeGemPortIdByFlow_frame:
  "storeGemPortIdByFlow d flow = Inr d' \<Longrightarrow> \<exists>L. d' = d\<lparr>GemPortIDs := L\<rparr>"
  unfolding storeGemPortIdByFlow_def
  by (simp split: if_splits add: storeGemPorts_frame storeGemPortId_frame)

lemma storeGemPorts_others:
  "storeGemPorts d flow gems = Inr d' \<Longrightarrow> n' \<noteq> OnuId flow
     \<Longrightarrow> lookup4 (GemPortIDs d') p n' u r = lookup4 (GemPortIDs d) p n' u r"
proof (induction gems arbitrary: d)
  case Nil
  then show ?case by simp
next
  case (Cons g gems)
  from Cons.prems(1) obtain d1 where
    d1: "storeGemPortId d (AccessIntfId flow) (OnuId flow) (PortNo flow) g (FlowId flow) = Inr d1"
    and rest: "storeGemPorts d1 flow gems = Inr d'"
    by (auto split: sum.splits)
  have "lookup4 (GemPortIDs d1) p n' u r = lookup4 (GemPortIDs d) p n' u r"
    using Cons.prems(2) by (simp add: lookup4_storeResource [OF storeGemPortId_Inr(1) [OF d1]])
  with Cons.IH [OF rest Cons.prems(2)] show ?case by simp
qed

lemma storeGemPorts_exclusive:
  "storeGemPorts d flow gems = Inr d' \<Longrightarrow> exclusiveOwner (GemPortIDs d)
     \<Longrightarrow> (\<And>g n' u'. g \<in> set gems \<Longrightarrow> n' \<noteq> OnuId flow
            \<Longrightarrow> lookup4 (GemPortIDs d) (AccessIntfId flow) n' u' g = None)
     \<Longrightarrow> exclusiveOwner (GemPortIDs d')"
proof (induction gems arbitrary: d)
  case Nil
  then show ?case by simp
next
  case (Cons g gems)
  from Cons.prems(1) obtain d1 where
    d1: "storeGemPortId d (AccessIntfId flow) (OnuId flow) (PortNo flow) g (FlowId flow) = Inr d1"
    and rest: "storeGemPorts d1 flow gems = Inr d'"
    by (auto split: sum.splits)
  note st = storeGemPortId_Inr(1) [OF d1]
  have e1: "exclusiveOwner (GemPortIDs d1)"
    using st Cons.prems(2) by (rule exclusive_store) (simp add: Cons.prems(3))
  have "lookup4 (GemPortIDs d1) (AccessIntfId flow) n' u' g' = None"
    if "g' \<in> set gems" "n' \<noteq> OnuId flow" for g' n' u'
    using that Cons.prems(3) [of g' n' u'] by (simp add: lookup4_storeResource [OF st])
  with Cons.IH [OF rest e1] show ?case by blast
qed

lemma validated_gem_store_exclusive:
  assumes v: "validateFlow d flow = None"
    and st: "storeGemPortIdByFlow d flow = Inr d'"
    and ex: "exclusiveOwner (GemPortIDs d)"
  shows "exclusiveOwner (GemPortIDs d')"
proof -
  from v have free: "lookup4 (GemPortIDs d) (AccessIntfId flow) n' u' g = None"
    if "g \<in> flowGems flow" "n' \<noteq> OnuId flow" for g n' u'
    using that unfolding validateFlow_cases by (auto split: if_splits)
  show ?thesis
  proof (cases "ReplicateFlow flow")
    case True
    with st have "storeGemPorts d flow (map snd (PbitToGemport flow)) = Inr d'"
      by (simp add: storeGemPortIdByFlow_def)
    then show ?thesis using ex
      by (rule storeGemPorts_exclusive) (rule free, simp_all add: flowGems_def True)
  next
    case False
    with st have "storeGemPortId d (AccessIntfId flow) (OnuId flow) (PortNo flow)
                    (GemportId flow) (FlowId flow) = Inr d'"
      by (simp add: storeGemPortIdByFlow_def)
    from storeGemPortId_Inr(1) [OF this] ex show ?thesis
      by (rule exclusive_store) (rule free, simp_all add: flowGems_def False)
  qed
qed

lemma validated_alloc_store_exclusive:
  assumes v: "validateFlow d flow = None"
    and same: "AllocIDs d4 = AllocIDs d"
    and st: "storeAllocId d4 flow = Inr d'"
    and ex: "exclusiveOwner (AllocIDs d)"
  shows "exclusiveOwner (AllocIDs d')"
proof -
  from v have free: "lookup4 (AllocIDs d4) (AccessIntfId flow) n' u' (AllocId flow) = None"
    if "n' \<noteq> OnuId flow" for n' u'
    using that unfolding validateFlow_cases same by (auto split: if_splits)
  from storeAllocId_Inr(1) [OF st] ex [folded same] show ?thesis
    by (rule exclusive_store) (rule free)
qed

lemma no_entries_exclusive: "ledgerEntries L = {} \<Longrightarrow> exclusiveOwner L"
  by (auto simp: ledgerEntries_def exclusiveOwner_def)

lemma FlowRemove_ledgers:
  "AllocIDs (fst (FlowRemove d flow)) = freeResource (AllocIDs d) (FlowId flow)"
  "GemPortIDs (fst (FlowRemove d flow)) = freeResource (GemPortIDs d) (FlowId flow)"
  by (simp_all add: FlowRemove_def notifyFlowRemoved_def freeAllocId_def freeGemPortId_def
      Let_def split: option.splits prod.splits)

section \<open>Case analysis of \<open>FlowAdd\<close>\<close>

lemma recordOnuFlow_frame [simp]:
  "AllocIDs (recordOnuFlow d i j k) = AllocIDs d"
  "GemPortIDs (recordOnuFlow d i j k) = GemPortIDs d"
  "Flows (recordOnuFlow d i j k) = Flows d"
  "enablePerf (recordOnuFlow d i j k) = enablePerf d"
  "signature (recordOnuFlow d i j k) = signature d"
  "InternalState (recordOnuFlow d i j k) = InternalState d"
  "OpenoltStream (recordOnuFlow d i j k) = OpenoltStream d"
  by (simp_all add: recordOnuFlow_def Let_def)

lemma enqueueFlowAdd_frame [simp]:
  "AllocIDs (enqueueFlowAdd i j flow d) = AllocIDs d"
  "GemPortIDs (enqueueFlowAdd i j flow d) = GemPortIDs d"
  "Flows (enqueueFlowAdd i j flow d) = Flows d"
  "Published (enqueueFlowAdd i j flow d) = Published d"
  by (simp_all add: enqueueFlowAdd_def)

lemma addOnuFlow_cases [consumes 1, case_names NotReady Invalid GemPanic AllocPanic Stored]:
  assumes "addOnuFlow d1 i j k flow = (d', e)"
  obtains
    (NotReady) "OnuInternalState (Onus (Pons d1 ! i) ! j) \<in> {OnuStatePonDisabled, OnuStateDisabled}"
      "d' = d1" "e = Some ErrOnuNotReady"
  | (Invalid) d3 err where
      "OnuInternalState (Onus (Pons d1 ! i) ! j) \<notin> {OnuStatePonDisabled, OnuStateDisabled}"
      "d3 = (if \<not> enablePerf d1 then recordOnuFlow d1 i j k else d1)"
      "validateFlow d3 flow = Some err" "d' = d3" "e = Some err"
  | (GemPanic) d3 p where
      "OnuInternalState (Onus (Pons d1 ! i) ! j) \<notin> {OnuStatePonDisabled, OnuStateDisabled}"
      "d3 = (if \<not> enablePerf d1 then recordOnuFlow d1 i j k else d1)"
      "validateFlow d3 flow = None" "storeGemPortIdByFlow d3 flow = Inl p"
      "d' = d3" "e = Some p"
  | (AllocPanic) d3 d4 p where
      "OnuInternalState (Onus (Pons d1 ! i) ! j) \<notin> {OnuStatePonDisabled, OnuStateDisabled}"
      "d3 = (if \<not> enablePerf d1 then recordOnuFlow d1 i j k else d1)"
      "validateFlow d3 flow = None" "storeGemPortIdByFlow d3 flow = Inr d4"
      "storeAllocId d4 flow = Inl p" "d' = d4" "e = Some p"
  | (Stored) d3 d4 d5 where
      "OnuInternalState (Onus (Pons d1 ! i) ! j) \<notin> {OnuStatePonDisabled, OnuStateDisabled}"
      "d3 = (if \<not> enablePerf d1 then recordOnuFlow d1 i j k else d1)"
      "validateFlow d3 flow = None" "storeGemPortIdByFlow d3 flow = Inr d4"
      "storeAllocId d4 flow = Inr d5"
      "d' = enqueueFlowAdd i j flow d5" "e = None"
proof (cases "OnuInternalState (Onus (Pons d1 ! i) ! j) \<in> {OnuStatePonDisabled, OnuStateDisabled}")
  case True
  with assms have "d' = d1" "e = Some ErrOnuNotReady"
    by (auto simp: addOnuFlow_def Let_def)
  with True show thesis by (rule NotReady)
next
  case False
  define d3 where "d3 = (if \<not> enablePerf d1 then recordOnuFlow d1 i j k else d1)"
  from False have ns: "\<not> (OnuInternalState (Onus (Pons d1 ! i) ! j) = OnuStatePonDisabled
      \<or> OnuInternalState (Onus (Pons d1 ! i) ! j) = OnuStateDisabled)" by simp
  from assms have r:
    "(case validateFlow d3 flow of
        Some err \<Rightarrow> (d3, Some err)
      | None \<Rightarrow>
         (case storeGemPortIdByFlow d3 flow of
            Inl p \<Rightarrow> (d3, Some p)
          | Inr d4 \<Rightarrow>
             (case storeAllocId d4 flow of
                Inl p \<Rightarrow> (d4, Some p)
              | Inr d5 \<Rightarrow> (enqueueFlowAdd i j flow d5, None)))) = (d', e)"
    unfolding addOnuFlow_def Let_def d3_def [symmetric] if_not_P [OF ns] .
  show thesis
  proof (cases "validateFlow d3 flow")
    case (Some err)
    with r have "d' = d3" "e = Some err" by simp_all
    with False d3_def Some show thesis by (rule Invalid)
  next
    case None
    note v = this
    show thesis
    proof (cases "storeGemPortIdByFlow d3 flow")
      case (Inl p)
      with r v have "d' = d3" "e = Some p" by simp_all
      with False d3_def v Inl show thesis by (rule GemPanic)
    next
      case (Inr d4)
      note g = this
      show thesis
      proof (cases "storeAllocId d4 flow")
        case (Inl p)
        with r v g have "d' = d4" "e = Some p" by simp_all
        with False d3_def v g Inl show thesis by (rule AllocPanic)
      next
        case (Inr d5)
        with r v g have "d' = enqueueFlowAdd i j flow d5" "e = None" by simp_all
        with False d3_def v g Inr show thesis by (rule Stored)
      qed
    qed
  qed
qed

lemma FlowAdd_cases [consumes 1, case_names OltFlow Multicast NoPon NoOnu Onu]:
  assumes "FlowAdd d flow = (d', e)"
  obtains
    (OltFlow) "AccessIntfId flow = - 1"
      "d' = (if \<not> enablePerf d then d\<lparr>Flows := (Flows d)(FlowKey (FlowId flow) \<mapsto> flow)\<rparr> else d)"
      "e = None"
  | (Multicast) "AccessIntfId flow \<noteq> - 1" "FlowType flow = ''multicast''"
      "d' = (if \<not> enablePerf d then d\<lparr>Flows := (Flows d)(FlowKey (FlowId flow) \<mapsto> flow)\<rparr> else d)"
      "e = None"
  | (NoPon) d1 where "AccessIntfId flow \<noteq> - 1" "FlowType flow \<noteq> ''multicast''"
      "d1 = (if \<not> enablePerf d then d\<lparr>Flows := (Flows d)(FlowKey (FlowId flow) \<mapsto> flow)\<rparr> else d)"
      "GetPonById d1 (AccessIntfId flow) = None" "d' = d1" "e = Some PanicNilPointer"
  | (NoOnu) d1 i where "AccessIntfId flow \<noteq> - 1" "FlowType flow \<noteq> ''multicast''"
      "d1 = (if \<not> enablePerf d then d\<lparr>Flows := (Flows d)(FlowKey (FlowId flow) \<mapsto> flow)\<rparr> else d)"
      "GetPonById d1 (AccessIntfId flow) = Some i"
      "GetOnuById (Pons d1 ! i) (OnuId flow) = None" "d' = d1" "e = Some ErrOnuNotFound"
  | (Onu) d1 i j where "AccessIntfId flow \<noteq> - 1" "FlowType flow \<noteq> ''multicast''"
      "d1 = (if \<not> enablePerf d then d\<lparr>Flows := (Flows d)(FlowKey (FlowId flow) \<mapsto> flow)\<rparr> else d)"
      "GetPonById d1 (AccessIntfId flow) = Some i"
      "GetOnuById (Pons d1 ! i) (OnuId flow) = Some j"
      "addOnuFlow d1 i j (if \<not> enablePerf d then FlowKey (FlowId flow) else FlowKey 0) flow = (d', e)"
proof -
  define key where "key = (if \<not> enablePerf d then FlowKey (FlowId flow) else FlowKey 0)"
  define d1 where
    "d1 = (if \<not> enablePerf d then d\<lparr>Flows := (Flows d)(FlowKey (FlowId flow) \<mapsto> flow)\<rparr> else d)"
  have d1': "(if \<not> enablePerf d then d\<lparr>Flows := (Flows d)(key \<mapsto> flow)\<rparr> else d) = d1"
    by (simp add: d1_def key_def)
  from assms have r:
    "(if AccessIntfId flow = - 1 then (d1, None)
      else if FlowType flow = ''multicast'' then (d1, None)
      else
        (case GetPonById d1 (AccessIntfId flow) of
           None \<Rightarrow> (d1, Some PanicNilPointer)
         | Some i \<Rightarrow>
            (case GetOnuById (Pons d1 ! i) (OnuId flow) of
               None \<Rightarrow> (d1, Some ErrOnuNotFound)
             | Some j \<Rightarrow> addOnuFlow d1 i j key flow))) = (d', e)"
    unfolding FlowAdd_def Let_def key_def [symmetric] d1' .
  show thesis
  proof (cases "AccessIntfId flow = - 1")
    case True
    with r have "d' = d1" "e = None" by simp_all
    with True show thesis unfolding d1_def by (rule OltFlow)
  next
    case ni: False
    show thesis
    proof (cases "FlowType flow = ''multicast''")
      case True
      with r ni have "d' = d1" "e = None" by simp_all
      with ni True show thesis unfolding d1_def by (rule Multicast)
    next
      case nm: False
      show thesis
      proof (cases "GetPonById d1 (AccessIntfId flow)")
        case None
        with r ni nm have "d' = d1" "e = Some PanicNilPointer" by simp_all
        with ni nm d1_def None show thesis by (rule NoPon)
      next
        case (Some i)
        note pon = this
        show thesis
        proof (cases "GetOnuById (Pons d1 ! i) (OnuId flow)")
          case None
          with r ni nm pon have "d' = d1" "e = Some ErrOnuNotFound" by simp_all
          with ni nm d1_def pon None show thesis by (rule NoOnu)
        next
          case (Some j)
          with r ni nm pon have "addOnuFlow d1 i j key flow = (d', e)" by simp
          with ni nm d1_def pon Some show thesis unfolding key_def by (rule Onu)
        qed
      qed
    qed
  qed
qed

section \<open>The calls keep the properties of the ledgers\<close>

lemma lookup4_resetPonMaps_Some:
  "lookup4 (resetPonMaps k L) p n u r = Some s \<Longrightarrow> lookup4 L p n u r = Some s"
proof (induction k)
  case 0
  then show ?case by simp
next
  case (Suc k)
  from Suc.prems have "lookup4 (resetPonMaps k L) p n u r = Some s"
    unfolding resetPonMaps_Suc lookup4_reset_pon by (simp split: if_splits)
  then show ?case by (rule Suc.IH)
qed

lemma nonEmpty_mono:
  assumes "nonEmptyFlowSets L"
    and "\<And>p n u r s. lookup4 L' p n u r = Some s \<Longrightarrow> lookup4 L p n u r = Some s"
  shows "nonEmptyFlowSets L'"
  unfolding nonEmptyFlowSets_def
proof (intro allI impI)
  fix p n u r s
  assume "lookup4 L' p n u r = Some s"
  then have "lookup4 L p n u r = Some s" by (rule assms(2))
  with assms(1) show "s \<noteq> {}" unfolding nonEmptyFlowSets_def by blast
qed

lemma ledgersOk_cong:
  "AllocIDs d' = AllocIDs d \<Longrightarrow> GemPortIDs d' = GemPortIDs d \<Longrightarrow> ledgersOk d' = ledgersOk d"
  by (simp add: ledgersOk_def)

lemma ledgersOk_no_entries:
  "ledgerEntries (AllocIDs d) = {} \<Longrightarrow> ledgerEntries (GemPortIDs d) = {} \<Longrightarrow> ledgersOk d"
  by (simp add: ledgersOk_def no_entries_nonEmpty no_entries_exclusive)

lemma addOnuFlow_ledgersOk:
  assumes r: "addOnuFlow d1 i j k flow = (d', e)" and ok: "ledgersOk d1"
  shows "ledgersOk d'"
  using r
proof (cases rule: addOnuFlow_cases)
  case NotReady
  with ok show ?thesis by simp
next
  case (Invalid d3 err)
  then have "ledgersOk d' = ledgersOk d1" by (intro ledgersOk_cong) simp_all
  with ok show ?thesis by simp
next
  case (GemPanic d3 p)
  then have "ledgersOk d' = ledgersOk d1" by (intro ledgersOk_cong) simp_all
  with ok show ?thesis by simp
next
  case (AllocPanic d3 d4 p)
  have ok3: "ledgersOk d3" using ok AllocPanic(2) by (simp add: ledgersOk_def)
  from storeGemPortIdByFlow_frame [OF AllocPanic(4)] have a4: "AllocIDs d4 = AllocIDs d3" by auto
  have "exclusiveOwner (GemPortIDs d4)"
    using AllocPanic(3,4) ok3 by (auto simp: ledgersOk_def intro: validated_gem_store_exclusive)
  moreover have "nonEmptyFlowSets (GemPortIDs d4)"
    using AllocPanic(4) ok3 by (auto simp: ledgersOk_def intro: storeGemPortIdByFlow_nonEmpty)
  ultimately show ?thesis using a4 ok3 AllocPanic(6) by (simp add: ledgersOk_def)
next
  case (Stored d3 d4 d5)
  have ok3: "ledgersOk d3" using ok Stored(2) by (simp add: ledgersOk_def)
  from storeGemPortIdByFlow_frame [OF Stored(4)] have a4: "AllocIDs d4 = AllocIDs d3" by auto
  from storeAllocId_frame [OF Stored(5)] have g5: "GemPortIDs d5 = GemPortIDs d4" by auto
  have "exclusiveOwner (GemPortIDs d4)"
    using Stored(3,4) ok3 by (auto simp: ledgersOk_def intro: validated_gem_store_exclusive)
  moreover have "nonEmptyFlowSets (GemPortIDs d4)"
    using Stored(4) ok3 by (auto simp: ledgersOk_def intro: storeGemPortIdByFlow_nonEmpty)
  moreover have "exclusiveOwner (AllocIDs d3)" using ok3 by (simp add: ledgersOk_def)
  with Stored(3) a4 Stored(5) have "exclusiveOwner (AllocIDs d5)"
    by (rule validated_alloc_store_exclusive)
  moreover have "nonEmptyFlowSets (AllocIDs d5)"
    using storeAllocId_Inr(1) [OF Stored(5)] ok3 a4
    by (auto simp: ledgersOk_def intro: nonEmpty_store)
  ultimately show ?thesis using g5 Stored(6) by (simp add: ledgersOk_def)
qed

lemma FlowAdd_ledgersOk:
  assumes r: "FlowAdd d flow = (d', e)" and ok: "ledgersOk d"
  shows "ledgersOk d'"
  using r
proof (cases rule: FlowAdd_cases)
  case OltFlow
  then have "ledgersOk d' = ledgersOk d" by (intro ledgersOk_cong) simp_all
  with ok show ?thesis by simp
next
  case Multicast
  then have "ledgersOk d' = ledgersOk d" by (intro ledgersOk_cong) simp_all
  with ok show ?thesis by simp
next
  case (NoPon d1)
  then have "ledgersOk d' = ledgersOk d" by (intro ledgersOk_cong) simp_all
  with ok show ?thesis by simp
next
  case (NoOnu d1 i)
  then have "ledgersOk d' = ledgersOk d" by (intro ledgersOk_cong) simp_all
  with ok show ?thesis by simp
next
  case (Onu d1 i j)
  then have "ledgersOk d1 = ledgersOk d" by (intro ledgersOk_cong) simp_all
  with ok Onu(6) show ?thesis by (auto intro: addOnuFlow_ledgersOk)
qed

lemma FlowRemove_ledgersOk:
  assumes "ledgersOk d"
  shows "ledgersOk (fst (FlowRemove d flow))"
  using assms unfolding ledgersOk_def FlowRemove_ledgers
  by (simp add: nonEmpty_free exclusive_free)

lemma reset_onu_ok:
  assumes "L p = Some onus"
  shows "nonEmptyFlowSets L \<Longrightarrow> nonEmptyFlowSets (L(p \<mapsto> onus(n \<mapsto> Map.empty)))"
    and "exclusiveOwner L \<Longrightarrow> exclusiveOwner (L(p \<mapsto> onus(n \<mapsto> Map.empty)))"
  by (erule nonEmpty_mono exclusive_mono,
      simp add: lookup4_reset_onu [of L p onus, OF assms] split: if_splits)+

lemma ActivateOnu_ledgersOk:
  assumes "ledgersOk d"
  shows "ledgersOk (fst (ActivateOnu onuFsm d intfId onuId sn))"
proof (cases "AllocIDs d intfId")
  case None
  with assms show ?thesis by (simp add: ActivateOnu_def Let_def)
next
  case (Some allocOnus)
  note a = this
  have na: "nonEmptyFlowSets ((AllocIDs d)(intfId \<mapsto> allocOnus(onuId \<mapsto> Map.empty)))"
    and ea: "exclusiveOwner ((AllocIDs d)(intfId \<mapsto> allocOnus(onuId \<mapsto> Map.empty)))"
    using assms reset_onu_ok [of "AllocIDs d" intfId allocOnus, OF a] by (simp_all add: ledgersOk_def)
  show ?thesis
  proof (cases "GemPortIDs d intfId")
    case None
    with a na ea assms show ?thesis by (simp add: ActivateOnu_def Let_def ledgersOk_def)
  next
    case (Some gemOnus)
    have ng: "nonEmptyFlowSets ((GemPortIDs d)(intfId \<mapsto> gemOnus(onuId \<mapsto> Map.empty)))"
      and eg: "exclusiveOwner ((GemPortIDs d)(intfId \<mapsto> gemOnus(onuId \<mapsto> Map.empty)))"
      using assms reset_onu_ok [of "GemPortIDs d" intfId gemOnus, OF Some] by (simp_all add: ledgersOk_def)
    with a Some na ea show ?thesis
      by (simp add: ActivateOnu_def Let_def ledgersOk_def split: option.splits)
  qed
qed

section \<open>The reboot\<close>

lemma ledgerEntries_empty [simp]: "ledgerEntries Map.empty = {}"
  by (simp add: ledgerEntries_def)

lemma disableOnus_frame [simp]:
  "AllocIDs (disableOnus onuFsm d) = AllocIDs d"
  "GemPortIDs (disableOnus onuFsm d) = GemPortIDs d"
  "signature (disableOnus onuFsm d) = signature d"
  "InternalState (disableOnus onuFsm d) = InternalState d"
  "channel (disableOnus onuFsm d) = channel d"
  "enableContext (disableOnus onuFsm d) = enableContext d"
  "OltServer (disableOnus onuFsm d) = OltServer d"
  "Nnis (disableOnus onuFsm d) = Nnis d"
  "length (Pons (disableOnus onuFsm d)) = length (Pons d)"
  by (simp_all add: disableOnus_def)

lemma InitOlt_None:
  assumes "InitOlt d = (d', None)"
  shows "AllocIDs d' = resetPonMaps (length (Pons d)) (AllocIDs d)"
    and "GemPortIDs d' = resetPonMaps (length (Pons d)) (GemPortIDs d)"
    and "signature d' = signature d"
    and "InternalState d' = InternalState d"
  using assms by (auto simp: InitOlt_def Let_def split: if_splits list.splits)

lemma InitOlt_Some:
  assumes "InitOlt d = (d', Some e)"
  shows "AllocIDs d' = AllocIDs d" and "GemPortIDs d' = GemPortIDs d"
    and "signature d' = signature d"
  using assms by (auto simp: InitOlt_def Let_def split: if_splits list.splits)


lemma InternalStateEvent_delete:
  "InternalStateEvent d OltInternalTxDelete =
     (if InternalState d = OltInternalStateDisabled \<or> InternalState d = OltInternalStateEnabled
      then (clearAllResources (d\<lparr>InternalState := OltInternalStateDeleted\<rparr>), None)
      else (d, Some ErrInvalidEvent))"
  by (cases "InternalState d") (simp_all add: InternalStateEvent_def)

lemma InternalStateEvent_initialize:
  "InternalStateEvent d OltInternalTxInitialize =
     (if InternalState d = OltInternalStateCreated \<or> InternalState d = OltInternalStateDeleted
      then InitOlt (d\<lparr>InternalState := OltInternalStateInitialized\<rparr>)
      else (d, Some ErrInvalidEvent))"
  by (cases "InternalState d") (simp_all add: InternalStateEvent_def)

lemma RestartOLT_invalid:
  assumes "InternalState d \<noteq> OltInternalStateDisabled" "InternalState d \<noteq> OltInternalStateEnabled"
  shows "RestartOLT onuFsm now d = (d\<lparr>PreviouslyConnected := False\<rparr>, Some ErrInvalidEvent)"
  using assms by (simp add: RestartOLT_def InternalStateEvent_delete)

lemma RestartOLT_valid:
  assumes "InternalState d = OltInternalStateDisabled \<or> InternalState d = OltInternalStateEnabled"
  shows "RestartOLT onuFsm now d =
     (let d4 = (disableOnus onuFsm
                  (clearAllResources (d\<lparr>PreviouslyConnected := False,
                      InternalState := OltInternalStateDeleted\<rparr>)))\<lparr>OltServer := False\<rparr>
      in if channel d4 \<noteq> ChanOpen then (d4, Some PanicCloseChannel)
         else if enableContext d4 = CtxNil then (d4\<lparr>channel := ChanClosed\<rparr>, Some PanicNilPointer)
         else InitOlt (d4\<lparr>channel := ChanClosed, enableContext := CtxCanceled,
                 signature := word_of_int now, InternalState := OltInternalStateInitialized\<rparr>))"
  using assms
  by (auto simp: RestartOLT_def InternalStateEvent_delete InternalStateEvent_initialize Let_def
      clearAllResources_def)

lemma RestartOLT_ledgers:
  assumes "RestartOLT onuFsm now d = (d', e)"
  shows "(AllocIDs d' = AllocIDs d \<and> GemPortIDs d' = GemPortIDs d)
       \<or> (ledgerEntries (AllocIDs d') = {} \<and> ledgerEntries (GemPortIDs d') = {})"
proof (cases "InternalState d = OltInternalStateDisabled \<or> InternalState d = OltInternalStateEnabled")
  case False
  with assms show ?thesis by (auto simp: RestartOLT_invalid)
next
  case True
  define d4 where "d4 = (disableOnus onuFsm
                  (clearAllResources (d\<lparr>PreviouslyConnected := False,
                      InternalState := OltInternalStateDeleted\<rparr>)))\<lparr>OltServer := False\<rparr>"
  have l4: "AllocIDs d4 = Map.empty" "GemPortIDs d4 = Map.empty"
    by (simp_all add: d4_def clearAllResources_def)
  define d7 where "d7 = d4\<lparr>channel := ChanClosed, enableContext := CtxCanceled,
                 signature := word_of_int now, InternalState := OltInternalStateInitialized\<rparr>"
  have l7: "AllocIDs d7 = Map.empty" "GemPortIDs d7 = Map.empty"
    by (simp_all add: d7_def l4)
  from assms have r:
    "(if channel d4 \<noteq> ChanOpen then (d4, Some PanicCloseChannel)
      else if enableContext d4 = CtxNil then (d4\<lparr>channel := ChanClosed\<rparr>, Some PanicNilPointer)
      else InitOlt d7) = (d', e)"
    unfolding RestartOLT_valid [OF True] Let_def d4_def [symmetric] d7_def [symmetric] .
  have "ledgerEntries (AllocIDs d') = {} \<and> ledgerEntries (GemPortIDs d') = {}"
  proof (cases "channel d4 \<noteq> ChanOpen \<or> enableContext d4 = CtxNil")
    case True
    with r l4 show ?thesis by (auto split: if_splits)
  next
    case False
    with r have i: "InitOlt d7 = (d', e)" by simp
    show ?thesis
    proof (cases e)
      case None
      with i InitOlt_None(1,2) [of d7 d'] l7 show ?thesis
        by (simp add: lookup4_resetPonMaps_empty)
    next
      case (Some err)
      with i InitOlt_Some(1,2) [of d7 d' err] l7 show ?thesis by simp
    qed
  qed
  then show ?thesis ..
qed

lemma RestartOLT_ledgersOk:
  assumes "ledgersOk d"
  shows "ledgersOk (fst (RestartOLT onuFsm now d))"
proof -
  obtain d' e where r: "RestartOLT onuFsm now d = (d', e)" by (cases "RestartOLT onuFsm now d")
  from RestartOLT_ledgers [OF r] have "ledgersOk d'"
  proof
    assume "AllocIDs d' = AllocIDs d \<and> GemPortIDs d' = GemPortIDs d"
    then have "ledgersOk d' = ledgersOk d" by (intro ledgersOk_cong) simp_all
    with assms show ?thesis by simp
  next
    assume "ledgerEntries (AllocIDs d') = {} \<and> ledgerEntries (GemPortIDs d') = {}"
    then show ?thesis by (simp add: ledgersOk_no_entries)
  qed
  with r show ?thesis by simp
qed

lemma execCommand_ledgersOk:
  assumes "ledgersOk d"
  shows "ledgersOk (fst (execCommand onuFsm d c))"
proof (cases c)
  case (CmdFlowAdd flow)
  obtain d' e where r: "FlowAdd d flow = (d', e)" by (cases "FlowAdd d flow")
  from FlowAdd_ledgersOk [OF r assms] r CmdFlowAdd show ?thesis
    by (simp add: execCommand_def)
next
  case (CmdFlowRemove flow)
  with FlowRemove_ledgersOk [OF assms] show ?thesis by (simp add: execCommand_def)
next
  case (CmdActivateOnu intfId onuId sn)
  with ActivateOnu_ledgersOk [OF assms] show ?thesis by (simp add: execCommand_def)
next
  case (CmdRestartOLT now)
  with RestartOLT_ledgersOk [OF assms] show ?thesis by (simp add: execCommand_def)
qed

lemma runCommands_ledgersOk:
  "ledgersOk d \<Longrightarrow> ledgersOk (runCommands onuFsm d cs)"
proof (induction cs arbitrary: d)
  case Nil
  then show ?case by simp
next
  case (Cons c cs)
  obtain d' e where r: "execCommand onuFsm d c = (d', e)" by (cases "execCommand onuFsm d c")
  from execCommand_ledgersOk [OF Cons.prems, of onuFsm c] r have ok: "ledgersOk d'" by simp
  show ?case
  proof (cases e)
    case None
    with r Cons.IH [OF ok] show ?thesis by simp
  next
    case (Some err)
    with r Cons.IH [OF ok] ok show ?thesis by simp
  qed
qed

section \<open>The properties of the ledgers are kept\<close>

text \<open>
  Claim C9. Along every sequence of stores, frees and clears, on either ledger, every
  resource-ID entry has a non-empty set of flow IDs if that held at the start and no
  store panics. And along every sequence of \<open>FlowAdd\<close>, \<open>FlowRemove\<close>, \<open>ActivateOnu\<close>
  and \<open>RestartOLT\<close> calls, where a flow reaches the ledgers only through the validation
  of \<open>FlowAdd\<close>, both properties stay true of both ledgers: the sets are non-empty and
  no Alloc-ID or GEM-port-ID has entries under two different ONUs of one PON.
\<close>

theorem ledger_invariants:
  "(nonEmptyFlowSets (AllocIDs d) \<longrightarrow> applyAllocOps d ops = Inr da
       \<longrightarrow> nonEmptyFlowSets (AllocIDs da))
   \<and> (nonEmptyFlowSets (GemPortIDs d) \<longrightarrow> applyGemOps d ops = Inr dg
       \<longrightarrow> nonEmptyFlowSets (GemPortIDs dg))
   \<and> (ledgersOk d \<longrightarrow> ledgersOk (runCommands onuFsm d cs))"
proof (intro conjI impI)
  assume "nonEmptyFlowSets (AllocIDs d)" "applyAllocOps d ops = Inr da"
  then show "nonEmptyFlowSets (AllocIDs da)" by (rule applyAllocOps_nonEmpty [rotated])
next
  assume "nonEmptyFlowSets (GemPortIDs d)" "applyGemOps d ops = Inr dg"
  then show "nonEmptyFlowSets (GemPortIDs dg)" by (rule applyGemOps_nonEmpty [rotated])
next
  assume "ledgersOk d"
  then show "ledgersOk (runCommands onuFsm d cs)" by (rule runCommands_ledgersOk)
qed

theorem ledger_invariants_witness:
  "nonEmptyFlowSets (AllocIDs exampleOlt) \<and> nonEmptyFlowSets (GemPortIDs exampleOlt)
   \<and> ledgersOk exampleOlt
   \<and> (\<exists>da. applyAllocOps exampleOlt
               [OpStore (exampleFlow 1 1 100 50), OpFree (exampleFlow 1 1 100 50),
                OpStore (exampleFlow 2 2 100 60), OpClear] = Inr da
            \<and> nonEmptyFlowSets (AllocIDs da))
   \<and> (\<exists>dg. applyGemOps exampleOlt
               [OpStore (exampleFlow 1 1 100 50), OpFree (exampleFlow 1 1 100 50),
                OpStore (exampleFlow 2 2 100 60), OpClear] = Inr dg
            \<and> nonEmptyFlowSets (GemPortIDs dg))
   \<and> ledgersOk (runCommands exampleOnuFsm exampleOlt
         [CmdFlowAdd (exampleFlow 1 1 100 50), CmdFlowAdd (exampleFlow 2 2 100 60),
          CmdFlowRemove (exampleFlow 1 1 100 50), CmdActivateOnu 0 2 ''BBSM00000002'',
          CmdRestartOLT 2000])"
proof -
  let ?ops = "[OpStore (exampleFlow 1 1 100 50), OpFree (exampleFlow 1 1 100 50),
               OpStore (exampleFlow 2 2 100 60), OpClear]"
  let ?cs = "[CmdFlowAdd (exampleFlow 1 1 100 50), CmdFlowAdd (exampleFlow 2 2 100 60),
          CmdFlowRemove (exampleFlow 1 1 100 50), CmdActivateOnu 0 2 ''BBSM00000002'',
          CmdRestartOLT 2000]"
  have ea: "ledgerEntries (AllocIDs exampleOlt) = {}"
    by (simp add: ledgerEntries_def lookup4_def exampleOlt_def exampleLedger_def)
  have eg: "ledgerEntries (GemPortIDs exampleOlt) = {}"
    by (simp add: ledgerEntries_def lookup4_def exampleOlt_def exampleLedger_def)
  have na: "nonEmptyFlowSets (AllocIDs exampleOlt)" using ea by (rule no_entries_nonEmpty)
  have ng: "nonEmptyFlowSets (GemPortIDs exampleOlt)" using eg by (rule no_entries_nonEmpty)
  have ok: "ledgersOk exampleOlt" using ea eg by (rule ledgersOk_no_entries)
  obtain da where da: "applyAllocOps exampleOlt ?ops = Inr da"
    by (simp add: storeAllocId_def storeResource_def exampleOlt_def exampleLedger_def
        exampleFlow_def freeAllocId_def clearAllResources_def freeResource_def freeFlows_def
        Let_def)
  obtain dg where dg: "applyGemOps exampleOlt ?ops = Inr dg"
    by (simp add: storeGemPortIdByFlow_def storeGemPortId_def storeResource_def exampleOlt_def
        exampleLedger_def exampleFlow_def freeGemPortId_def clearAllResources_def
        freeResource_def freeFlows_def Let_def)
  from ledger_invariants [of exampleOlt ?ops da dg exampleOnuFsm ?cs] na ng ok da dg
  show ?thesis by blast
qed

lemma FlowAdd_targetsOnu:
  assumes "targetsOnu d flow i j"
  shows "FlowAdd d flow =
     addOnuFlow (if \<not> enablePerf d then d\<lparr>Flows := (Flows d)(FlowKey (FlowId flow) \<mapsto> flow)\<rparr> else d)
       i j (if \<not> enablePerf d then FlowKey (FlowId flow) else FlowKey 0) flow"
  using assms by (simp add: targetsOnu_def FlowAdd_def GetPonById_def Let_def)

lemma storeAllocId_allocStored: "storeAllocId d flow = Inr d' \<Longrightarrow> allocStored d' flow"
  by (simp add: allocStored_def lookup4_storeResource [OF storeAllocId_Inr(1)])

section \<open>Evaluating the model on the examples\<close>

lemmas example_defs = exampleOlt_def exampleLedger_def exampleFlow_def exampleOnu_def
  exampleOnuFsm_def exampleOlt1_def exampleOlt1Disabled_def

lemmas flow_defs = FlowAdd_def addOnuFlow_def recordOnuFlow_def enqueueFlowAdd_def updateOnu_def
  GetPonById_def
  GetOnuById_def validateFlow_def gemInUse_def allocInUse_def storeGemPortIdByFlow_def
  storeGemPortId_def storeAllocId_def storeResource_def Let_def

section \<open>A flow that asks for a resource of another ONU is rejected\<close>

text \<open>
  Claim C1, as amended. Let flow \<open>f1\<close> hold an Alloc-ID (or a GEM port) in the ledger, and
  let \<open>f2\<close> be a flow on the same PON for another ONU that asks for the same Alloc-ID (or
  has that GEM port among its GEM ports, those of \<open>PbitToGemport\<close> when it is replicated).
  If \<open>f2\<close> reaches the validation, that is, it has an access interface, is not
  multicast, and its ONU exists and is neither disabled nor pon-disabled, then \<open>FlowAdd\<close>
  returns one of the two conflict errors of \<open>validateFlow\<close> and leaves both ledgers as
  they were. Without these conditions the call ends earlier with another result.
\<close>

theorem conflicting_flow_rejected:
  assumes pon: "AccessIntfId f2 = AccessIntfId f1" and onu: "OnuId f2 \<noteq> OnuId f1"
    and held: "(allocStored d f1 \<and> AllocId f2 = AllocId f1)
               \<or> (\<exists>gem \<in> flowGems f2. gemStored d f1 gem)"
    and target: "targetsOnu d f2 i j"
    and ready: "OnuInternalState (Onus (Pons d ! i) ! j) \<notin> {OnuStatePonDisabled, OnuStateDisabled}"
  shows "snd (FlowAdd d f2) \<in> {Some ErrAllocInUse, Some ErrGemInUse}
       \<and> AllocIDs (fst (FlowAdd d f2)) = AllocIDs d
       \<and> GemPortIDs (fst (FlowAdd d f2)) = GemPortIDs d"
proof -
  define d1 where "d1 = (if \<not> enablePerf d then d\<lparr>Flows := (Flows d)(FlowKey (FlowId f2) \<mapsto> f2)\<rparr> else d)"
  define key where "key = (if \<not> enablePerf d then FlowKey (FlowId f2) else FlowKey 0)"
  obtain d' e where r: "addOnuFlow d1 i j key f2 = (d', e)" by (cases "addOnuFlow d1 i j key f2")
  have fa: "FlowAdd d f2 = (d', e)"
    using FlowAdd_targetsOnu [OF target] r by (simp add: d1_def key_def)
  have l1: "AllocIDs d1 = AllocIDs d" "GemPortIDs d1 = GemPortIDs d" "Pons d1 = Pons d"
    by (simp_all add: d1_def)
  have conflict: "validateFlow d3 f2 \<in> {Some ErrAllocInUse, Some ErrGemInUse}"
    if "AllocIDs d3 = AllocIDs d" "GemPortIDs d3 = GemPortIDs d" for d3
  proof -
    from held have
      "(\<exists>n u r. n \<noteq> OnuId f2 \<and> r \<in> flowGems f2
           \<and> lookup4 (GemPortIDs d) (AccessIntfId f2) n u r \<noteq> None)
       \<or> (\<exists>n u. n \<noteq> OnuId f2 \<and> lookup4 (AllocIDs d) (AccessIntfId f2) n u (AllocId f2) \<noteq> None)"
    proof
      assume "allocStored d f1 \<and> AllocId f2 = AllocId f1"
      then have "lookup4 (AllocIDs d) (AccessIntfId f2) (OnuId f1) (PortNo f1) (AllocId f2) \<noteq> None"
        using pon by (auto simp: allocStored_def split: option.splits)
      with onu show ?thesis by metis
    next
      assume "\<exists>gem \<in> flowGems f2. gemStored d f1 gem"
      then obtain gem where "gem \<in> flowGems f2"
        "lookup4 (GemPortIDs d) (AccessIntfId f2) (OnuId f1) (PortNo f1) gem \<noteq> None"
        using pon by (auto simp: gemStored_def split: option.splits)
      with onu show ?thesis by metis
    qed
    then show ?thesis
      unfolding validateFlow_cases that by auto
  qed
  from r show ?thesis
  proof (cases rule: addOnuFlow_cases)
    case NotReady
    with ready l1 show ?thesis by simp
  next
    case (Invalid d3 err)
    then have l3: "AllocIDs d3 = AllocIDs d" "GemPortIDs d3 = GemPortIDs d"
      using l1 by simp_all
    from conflict [OF l3] Invalid l3 show ?thesis by (simp add: fa)
  next
    case (GemPanic d3 p)
    then have l3: "AllocIDs d3 = AllocIDs d" "GemPortIDs d3 = GemPortIDs d"
      using l1 by simp_all
    from conflict [OF l3] GemPanic(3) show ?thesis by simp
  next
    case (AllocPanic d3 d4 p)
    then have l3: "AllocIDs d3 = AllocIDs d" "GemPortIDs d3 = GemPortIDs d"
      using l1 by simp_all
    from conflict [OF l3] AllocPanic(3) show ?thesis by simp
  next
    case (Stored d3 d4 d5)
    then have l3: "AllocIDs d3 = AllocIDs d" "GemPortIDs d3 = GemPortIDs d"
      using l1 by simp_all
    from conflict [OF l3] Stored(3) show ?thesis by simp
  qed
qed

theorem conflicting_flow_rejected_witness:
  "AccessIntfId (exampleFlow 2 2 100 60) = AccessIntfId (exampleFlow 1 1 100 50)
   \<and> OnuId (exampleFlow 2 2 100 60) \<noteq> OnuId (exampleFlow 1 1 100 50)
   \<and> allocStored exampleOlt1 (exampleFlow 1 1 100 50)
   \<and> targetsOnu exampleOlt1 (exampleFlow 2 2 100 60) 0 1
   \<and> snd (FlowAdd exampleOlt1 (exampleFlow 2 2 100 60)) \<in> {Some ErrAllocInUse, Some ErrGemInUse}
   \<and> AllocIDs (fst (FlowAdd exampleOlt1 (exampleFlow 2 2 100 60))) = AllocIDs exampleOlt1
   \<and> GemPortIDs (fst (FlowAdd exampleOlt1 (exampleFlow 2 2 100 60))) = GemPortIDs exampleOlt1"
proof -
  have pon: "AccessIntfId (exampleFlow 2 2 100 60) = AccessIntfId (exampleFlow 1 1 100 50)"
    by (simp add: exampleFlow_def)
  have onu: "OnuId (exampleFlow 2 2 100 60) \<noteq> OnuId (exampleFlow 1 1 100 50)"
    by (simp add: exampleFlow_def)
  have st: "allocStored exampleOlt1 (exampleFlow 1 1 100 50)"
    by (simp add: allocStored_def lookup4_def example_defs flow_defs)
  have al: "AllocId (exampleFlow 2 2 100 60) = AllocId (exampleFlow 1 1 100 50)"
    by (simp add: exampleFlow_def)
  have tg: "targetsOnu exampleOlt1 (exampleFlow 2 2 100 60) 0 1"
    by (simp add: targetsOnu_def example_defs flow_defs)
  have rd: "OnuInternalState (Onus (Pons exampleOlt1 ! 0) ! 1)
              \<notin> {OnuStatePonDisabled, OnuStateDisabled}"
    by (simp add: example_defs flow_defs)
  from conflicting_flow_rejected [OF pon onu _ tg rd] st al pon onu tg
  show ?thesis by blast
qed

theorem conflicting_flow_counterexample:
  "AccessIntfId (exampleFlow 2 2 100 60) = AccessIntfId (exampleFlow 1 1 100 50)
   \<and> OnuId (exampleFlow 2 2 100 60) \<noteq> OnuId (exampleFlow 1 1 100 50)
   \<and> AllocId (exampleFlow 2 2 100 60) = AllocId (exampleFlow 1 1 100 50)
   \<and> allocStored exampleOlt1Disabled (exampleFlow 1 1 100 50)
   \<and> snd (FlowAdd exampleOlt1Disabled (exampleFlow 2 2 100 60)) = Some ErrOnuNotReady
   \<and> snd (FlowAdd exampleOlt1 ((exampleFlow 2 2 100 60)\<lparr>FlowType := ''multicast''\<rparr>)) = None"
  by (simp add: allocStored_def lookup4_def example_defs flow_defs)

section \<open>A flow for a disabled ONU is rejected\<close>

text \<open>
  Claim C5. For a flow with an access interface that is not multicast and whose ONU
  exists, if the ONU's \<open>InternalState\<close> is disabled or pon-disabled then \<open>FlowAdd\<close>
  returns the ONU-not-ready error (\<open>DeviceNotReadyError\<close>), whatever the validation would
  say; both ledgers are unchanged, and so are all PONs and ONUs, hence no flow key is
  appended and nothing is sent on any ONU's channel, and nothing is published.
\<close>

theorem disabled_onu_rejects_flow:
  assumes target: "targetsOnu d flow i j"
    and state: "OnuInternalState (Onus (Pons d ! i) ! j) \<in> {OnuStatePonDisabled, OnuStateDisabled}"
  shows "snd (FlowAdd d flow) = Some ErrOnuNotReady
       \<and> AllocIDs (fst (FlowAdd d flow)) = AllocIDs d
       \<and> GemPortIDs (fst (FlowAdd d flow)) = GemPortIDs d
       \<and> Pons (fst (FlowAdd d flow)) = Pons d
       \<and> Published (fst (FlowAdd d flow)) = Published d"
  using state unfolding FlowAdd_targetsOnu [OF target]
  by (auto simp: addOnuFlow_def Let_def)

theorem disabled_onu_rejects_flow_witness:
  "targetsOnu exampleOlt1Disabled (exampleFlow 2 2 100 60) 0 1
   \<and> OnuInternalState (Onus (Pons exampleOlt1Disabled ! 0) ! 1) = OnuStateDisabled
   \<and> validateFlow exampleOlt1Disabled (exampleFlow 2 2 100 60) = Some ErrAllocInUse
   \<and> snd (FlowAdd exampleOlt1Disabled (exampleFlow 2 2 100 60)) = Some ErrOnuNotReady
   \<and> AllocIDs (fst (FlowAdd exampleOlt1Disabled (exampleFlow 2 2 100 60)))
       = AllocIDs exampleOlt1Disabled
   \<and> GemPortIDs (fst (FlowAdd exampleOlt1Disabled (exampleFlow 2 2 100 60)))
       = GemPortIDs exampleOlt1Disabled
   \<and> Pons (fst (FlowAdd exampleOlt1Disabled (exampleFlow 2 2 100 60))) = Pons exampleOlt1Disabled"
proof -
  have tg: "targetsOnu exampleOlt1Disabled (exampleFlow 2 2 100 60) 0 1"
    by (simp add: targetsOnu_def example_defs flow_defs)
  have st: "OnuInternalState (Onus (Pons exampleOlt1Disabled ! 0) ! 1) = OnuStateDisabled"
    by (simp add: example_defs flow_defs)
  have v: "validateFlow exampleOlt1Disabled (exampleFlow 2 2 100 60) = Some ErrAllocInUse"
    by (simp add: example_defs flow_defs)
  from st have "OnuInternalState (Onus (Pons exampleOlt1Disabled ! 0) ! 1)
     \<in> {OnuStatePonDisabled, OnuStateDisabled}" by simp
  from disabled_onu_rejects_flow [OF tg this] tg st v show ?thesis by simp
qed

section \<open>Removing a flow frees the ledgers first\<close>

text \<open>
  Claim C7. For every flow, \<open>FlowRemove\<close> leaves both ledgers as \<open>freeGemPortId\<close> and
  \<open>freeAllocId\<close> make them, whatever else it does and whether or not the flow was ever
  stored: no entry refers to the flow ID afterwards. With strict bookkeeping
  (\<open>enablePerf\<close> false), if no flow is stored under the flow's ID the call returns the
  not-found error, in the state in which the two frees have already run.
\<close>

theorem flow_remove_frees_first:
  "AllocIDs (fst (FlowRemove d flow)) = freeResource (AllocIDs d) (FlowId flow)
   \<and> GemPortIDs (fst (FlowRemove d flow)) = freeResource (GemPortIDs d) (FlowId flow)
   \<and> FlowId flow \<notin> ledgerFlowIds (AllocIDs (fst (FlowRemove d flow)))
   \<and> FlowId flow \<notin> ledgerFlowIds (GemPortIDs (fst (FlowRemove d flow)))
   \<and> (\<not> enablePerf d \<and> Flows d (FlowKey (FlowId flow)) = None
        \<longrightarrow> FlowRemove d flow = (freeAllocId (freeGemPortId d flow) flow, Some ErrFlowNotFound))"
proof -
  have "FlowId flow \<notin> ledgerFlowIds (freeResource L (FlowId flow))" for L
    using flowIds_free [of L "FlowId flow"] by blast
  then show ?thesis
    unfolding FlowRemove_ledgers
    by (simp add: FlowRemove_def freeAllocId_def freeGemPortId_def Let_def)
qed

theorem flow_remove_frees_first_witness:
  "\<not> enablePerf exampleOlt1 \<and> Flows exampleOlt1 (FlowKey (FlowId (exampleFlow 2 7 100 50))) = None
   \<and> FlowRemove exampleOlt1 (exampleFlow 2 7 100 50)
       = (freeAllocId (freeGemPortId exampleOlt1 (exampleFlow 2 7 100 50)) (exampleFlow 2 7 100 50),
          Some ErrFlowNotFound)
   \<and> AllocIDs (fst (FlowRemove exampleOlt1 (exampleFlow 2 7 100 50)))
       = freeResource (AllocIDs exampleOlt1) 7
   \<and> lookup4 (AllocIDs (fst (FlowRemove exampleOlt1 (exampleFlow 2 7 100 50)))) 0 1 16 100 = Some {1}
   \<and> lookup4 (AllocIDs (fst (FlowRemove exampleOlt1 (exampleFlow 1 1 100 50)))) 0 1 16 100 = None"
proof -
  have h: "\<not> enablePerf exampleOlt1 \<and> Flows exampleOlt1 (FlowKey (FlowId (exampleFlow 2 7 100 50))) = None"
    by (simp add: example_defs flow_defs)
  have l: "lookup4 (AllocIDs exampleOlt1) 0 1 16 100 = Some {1}"
    by (simp add: lookup4_def example_defs flow_defs)
  have f7: "FlowId (exampleFlow 2 7 100 50) = 7" and f1: "FlowId (exampleFlow 1 1 100 50) = 1"
    by (simp_all add: exampleFlow_def)
  from flow_remove_frees_first [of exampleOlt1 "exampleFlow 2 7 100 50"]
    flow_remove_frees_first [of exampleOlt1 "exampleFlow 1 1 100 50"] h l
  show ?thesis by (simp add: lookup4_freeResource f7 f1 freeAllocId_def freeGemPortId_def)
qed

section \<open>Activating an ONU resets its part of the ledgers\<close>

lemma ActivateOnu_ledgers:
  assumes "snd (ActivateOnu onuFsm d intfId onuId sn) \<noteq> Some PanicNilMap"
  obtains allocOnus gemOnus where
    "AllocIDs d intfId = Some allocOnus" "GemPortIDs d intfId = Some gemOnus"
    "AllocIDs (fst (ActivateOnu onuFsm d intfId onuId sn))
       = (AllocIDs d)(intfId \<mapsto> allocOnus(onuId \<mapsto> Map.empty))"
    "GemPortIDs (fst (ActivateOnu onuFsm d intfId onuId sn))
       = (GemPortIDs d)(intfId \<mapsto> gemOnus(onuId \<mapsto> Map.empty))"
proof (cases "AllocIDs d intfId")
  case None
  with assms show ?thesis by (simp add: ActivateOnu_def Let_def)
next
  case (Some allocOnus)
  note a = this
  show ?thesis
  proof (cases "GemPortIDs d intfId")
    case None
    with a assms show ?thesis by (simp add: ActivateOnu_def Let_def)
  next
    case (Some gemOnus)
    with a that [of allocOnus gemOnus] show ?thesis
      by (simp add: ActivateOnu_def Let_def split: option.splits)
  qed
qed

text \<open>
  Claim C10. After a call of \<open>ActivateOnu\<close> for a PON and an ONU ID, neither ledger has
  an entry for that pair: the ONU's map in each ledger is a new, empty map, whatever it
  held before. The entries of every other pair of PON and ONU are as before. This holds
  for every call that gets past the two map assignments, that is, that does not panic
  because the PON has no map in a ledger.
\<close>

theorem activate_onu_resets_ledgers:
  assumes "snd (ActivateOnu onuFsm d intfId onuId sn) \<noteq> Some PanicNilMap"
  shows "(\<forall>u r. lookup4 (AllocIDs (fst (ActivateOnu onuFsm d intfId onuId sn))) intfId onuId u r = None
            \<and> lookup4 (GemPortIDs (fst (ActivateOnu onuFsm d intfId onuId sn))) intfId onuId u r = None)
       \<and> (\<forall>p n u r. (p, n) \<noteq> (intfId, onuId) \<longrightarrow>
             lookup4 (AllocIDs (fst (ActivateOnu onuFsm d intfId onuId sn))) p n u r
               = lookup4 (AllocIDs d) p n u r
             \<and> lookup4 (GemPortIDs (fst (ActivateOnu onuFsm d intfId onuId sn))) p n u r
               = lookup4 (GemPortIDs d) p n u r)
       \<and> (\<exists>ponValues. AllocIDs (fst (ActivateOnu onuFsm d intfId onuId sn)) intfId = Some ponValues
             \<and> ponValues onuId = Some Map.empty)
       \<and> (\<exists>ponValues. GemPortIDs (fst (ActivateOnu onuFsm d intfId onuId sn)) intfId = Some ponValues
             \<and> ponValues onuId = Some Map.empty)"
proof -
  from assms obtain allocOnus gemOnus where
    a: "AllocIDs d intfId = Some allocOnus" and g: "GemPortIDs d intfId = Some gemOnus" and
    a': "AllocIDs (fst (ActivateOnu onuFsm d intfId onuId sn))
       = (AllocIDs d)(intfId \<mapsto> allocOnus(onuId \<mapsto> Map.empty))" and
    g': "GemPortIDs (fst (ActivateOnu onuFsm d intfId onuId sn))
       = (GemPortIDs d)(intfId \<mapsto> gemOnus(onuId \<mapsto> Map.empty))"
    by (rule ActivateOnu_ledgers)
  show ?thesis
    unfolding a' g'
    by (auto simp: lookup4_reset_onu [of "AllocIDs d" intfId allocOnus, OF a]
        lookup4_reset_onu [of "GemPortIDs d" intfId gemOnus, OF g])
qed

theorem activate_onu_resets_ledgers_witness:
  "snd (ActivateOnu exampleOnuFsm exampleOlt1 0 1 ''BBSM00000001'') = None
   \<and> lookup4 (AllocIDs exampleOlt1) 0 1 16 100 = Some {1}
   \<and> lookup4 (AllocIDs (fst (ActivateOnu exampleOnuFsm exampleOlt1 0 1 ''BBSM00000001''))) 0 1 16 100
       = None
   \<and> lookup4 (GemPortIDs (fst (ActivateOnu exampleOnuFsm exampleOlt1 0 1 ''BBSM00000001''))) 0 1 16 50
       = None"
proof -
  have r: "snd (ActivateOnu exampleOnuFsm exampleOlt1 0 1 ''BBSM00000001'') = None"
    by (simp add: ActivateOnu_def GetOnuBySn_def fireOnu_def example_defs flow_defs)
  then have "snd (ActivateOnu exampleOnuFsm exampleOlt1 0 1 ''BBSM00000001'') \<noteq> Some PanicNilMap"
    by simp
  from activate_onu_resets_ledgers [OF this] r show ?thesis
    by (simp add: lookup4_def example_defs flow_defs)
qed

section \<open>The order of the steps of \<open>FlowAdd\<close>\<close>

lemma firstIndex_Some:
  "firstIndex P xs = Some i \<Longrightarrow> i < length xs \<and> P (xs ! i)"
proof (induction xs arbitrary: i)
  case Nil
  then show ?case by simp
next
  case (Cons x xs)
  then show ?case by (auto split: if_splits)
qed

lemma targetsOnu_bounds:
  assumes "targetsOnu d flow i j"
  shows "i < length (Pons d)" and "j < length (Onus (Pons d ! i))"
  using assms firstIndex_Some [of "\<lambda>pon. PonID pon = AccessIntfId flow" "Pons d" i]
    firstIndex_Some [of "\<lambda>onu. OnuID onu = OnuId flow" "Onus (Pons d ! i)" j]
  by (simp_all add: targetsOnu_def GetPonById_def GetOnuById_def)

lemma FlowAdd_recorded:
  assumes target: "targetsOnu d flow i j"
    and ready: "OnuInternalState (Onus (Pons d ! i) ! j) \<notin> {OnuStatePonDisabled, OnuStateDisabled}"
  shows "FlowAdd d flow =
     (case validateFlow (recordedFlow d flow i j) flow of
        Some err \<Rightarrow> (recordedFlow d flow i j, Some err)
      | None \<Rightarrow>
         (case storeGemPortIdByFlow (recordedFlow d flow i j) flow of
            Inl p \<Rightarrow> (recordedFlow d flow i j, Some p)
          | Inr d4 \<Rightarrow>
             (case storeAllocId d4 flow of
                Inl p \<Rightarrow> (d4, Some p)
              | Inr d5 \<Rightarrow> (enqueueFlowAdd i j flow d5, None))))"
  using ready unfolding FlowAdd_targetsOnu [OF target]
  by (cases "enablePerf d")
    (simp_all add: addOnuFlow_def recordedFlow_def Let_def cong: option.case_cong sum.case_cong)

lemma updateOnu_nth:
  assumes "i < length (Pons d)" and "j < length (Onus (Pons d ! i))"
  shows "Onus (Pons (updateOnu i j f d) ! p) ! n =
           (if p = i \<and> n = j then f (Onus (Pons d ! i) ! j) else Onus (Pons d ! p) ! n)"
  using assms by (simp add: updateOnu_def nth_list_update)

lemma recordedFlow_channels:
  assumes "i < length (Pons d)" and "j < length (Onus (Pons d ! i))"
  shows "OnuChannel (Onus (Pons (recordedFlow d flow i j) ! p) ! n)
           = OnuChannel (Onus (Pons d ! p) ! n)"
proof -
  let ?d1 = "d\<lparr>Flows := (Flows d)(FlowKey (FlowId flow) \<mapsto> flow)\<rparr>"
  have b: "i < length (Pons ?d1)" "j < length (Onus (Pons ?d1 ! i))"
    using assms by simp_all
  show ?thesis
    using updateOnu_nth [OF b, of "\<lambda>n. n\<lparr>OnuFlows := OnuFlows n @ [FlowKey (FlowId flow)]\<rparr>" p n]
    by (simp add: recordedFlow_def recordOnuFlow_def Let_def)
qed

lemma recordedFlow_frame [simp]:
  "AllocIDs (recordedFlow d flow i j) = AllocIDs d"
  "GemPortIDs (recordedFlow d flow i j) = GemPortIDs d"
  by (simp_all add: recordedFlow_def)

lemma validateFlow_recordedFlow [simp]:
  "validateFlow (recordedFlow d flow i j) f = validateFlow d f"
  by (simp add: validateFlow_def)

lemma recordedFlow_effect:
  assumes "i < length (Pons d)" and "j < length (Onus (Pons d ! i))"
  shows "OnuFlows (Onus (Pons (recordedFlow d flow i j) ! i) ! j) =
           (if enablePerf d then OnuFlows (Onus (Pons d ! i) ! j)
            else OnuFlows (Onus (Pons d ! i) ! j) @ [FlowKey (FlowId flow)])"
    and "Published (recordedFlow d flow i j) =
           (if \<not> enablePerf d \<and> OnuFlows (Onus (Pons d ! i) ! j) = []
            then Published d @ [PublishedEvent ''Flow-add-received''
                   (OnuPonPortID (Onus (Pons d ! i) ! j)) (OnuID (Onus (Pons d ! i) ! j))
                   (OnuSn (Onus (Pons d ! i) ! j))]
            else Published d)"
    and "Flows (recordedFlow d flow i j) =
           (if enablePerf d then Flows d else (Flows d)(FlowKey (FlowId flow) \<mapsto> flow))"
    and "OnuChannel (Onus (Pons (recordedFlow d flow i j) ! i) ! j)
           = OnuChannel (Onus (Pons d ! i) ! j)"
    and "OnuID (Onus (Pons (recordedFlow d flow i j) ! i) ! j) = OnuID (Onus (Pons d ! i) ! j)"
    and "PonID (Pons (recordedFlow d flow i j) ! i) = PonID (Pons d ! i)"
    and "i < length (Pons (recordedFlow d flow i j))"
    and "j < length (Onus (Pons (recordedFlow d flow i j) ! i))"
  using assms by (simp_all add: recordedFlow_def recordOnuFlow_def updateOnu_def Let_def)

lemma enqueueFlowAdd_effect:
  assumes "i < length (Pons d)" and "j < length (Onus (Pons d ! i))"
  shows "OnuChannel (Onus (Pons (enqueueFlowAdd i j flow d) ! i) ! j) =
           OnuChannel (Onus (Pons d ! i) ! j) @
             [MsgFlowAdd (PonID (Pons d ! i)) (OnuID (Onus (Pons d ! i) ! j)) flow]"
    and "OnuFlows (Onus (Pons (enqueueFlowAdd i j flow d) ! i) ! j)
           = OnuFlows (Onus (Pons d ! i) ! j)"
  using assms by (simp_all add: enqueueFlowAdd_def updateOnu_def)

lemma FlowAdd_outcome [consumes 2, case_names Invalid GemPanic AllocPanic Stored]:
  assumes target: "targetsOnu d flow i j"
    and ready: "OnuInternalState (Onus (Pons d ! i) ! j) \<notin> {OnuStatePonDisabled, OnuStateDisabled}"
  obtains (Invalid) err where "validateFlow d flow = Some err"
      "FlowAdd d flow = (recordedFlow d flow i j, Some err)"
    | (GemPanic) p where "validateFlow d flow = None"
      "storeGemPortIdByFlow (recordedFlow d flow i j) flow = Inl p"
      "FlowAdd d flow = (recordedFlow d flow i j, Some p)"
    | (AllocPanic) d4 p where "validateFlow d flow = None"
      "storeGemPortIdByFlow (recordedFlow d flow i j) flow = Inr d4"
      "storeAllocId d4 flow = Inl p"
      "FlowAdd d flow = (d4, Some p)"
    | (Stored) d4 d5 where "validateFlow d flow = None"
      "storeGemPortIdByFlow (recordedFlow d flow i j) flow = Inr d4"
      "storeAllocId d4 flow = Inr d5"
      "FlowAdd d flow = (enqueueFlowAdd i j flow d5, None)"
proof (cases "validateFlow d flow")
  case (Some err)
  then show ?thesis
    using Invalid [of err] by (simp add: FlowAdd_recorded [OF target ready])
next
  case None
  show ?thesis
  proof (cases "storeGemPortIdByFlow (recordedFlow d flow i j) flow")
    case (Inl p)
    with None show ?thesis
      using GemPanic [of p] by (simp add: FlowAdd_recorded [OF target ready])
  next
    case (Inr d4)
    show ?thesis
    proof (cases "storeAllocId d4 flow")
      case (Inl p)
      with None Inr show ?thesis
        using AllocPanic [of d4 p] by (simp add: FlowAdd_recorded [OF target ready])
    next
      case (Inr d5)
      with None \<open>storeGemPortIdByFlow (recordedFlow d flow i j) flow = Inr d4\<close> show ?thesis
        using Stored [of d4 d5] by (simp add: FlowAdd_recorded [OF target ready])
    qed
  qed
qed

lemma FlowAdd_bookkeeping:
  assumes target: "targetsOnu d flow i j"
    and ready: "OnuInternalState (Onus (Pons d ! i) ! j) \<notin> {OnuStatePonDisabled, OnuStateDisabled}"
  shows "OnuFlows (Onus (Pons (fst (FlowAdd d flow)) ! i) ! j)
           = OnuFlows (Onus (Pons (recordedFlow d flow i j) ! i) ! j)"
    and "Published (fst (FlowAdd d flow)) = Published (recordedFlow d flow i j)"
    and "Flows (fst (FlowAdd d flow)) = Flows (recordedFlow d flow i j)"
proof -
  let ?d3 = "recordedFlow d flow i j"
  note b = targetsOnu_bounds [OF target]
  have "OnuFlows (Onus (Pons (fst (FlowAdd d flow)) ! i) ! j) = OnuFlows (Onus (Pons ?d3 ! i) ! j)
      \<and> Published (fst (FlowAdd d flow)) = Published ?d3
      \<and> Flows (fst (FlowAdd d flow)) = Flows ?d3"
    using target ready
  proof (cases rule: FlowAdd_outcome)
    case (Invalid err)
    then show ?thesis by simp
  next
    case (GemPanic p)
    then show ?thesis by simp
  next
    case (AllocPanic d4 p)
    from storeGemPortIdByFlow_frame [OF AllocPanic(2)] obtain L where "d4 = ?d3\<lparr>GemPortIDs := L\<rparr>" ..
    with AllocPanic(4) show ?thesis by simp
  next
    case (Stored d4 d5)
    from storeGemPortIdByFlow_frame [OF Stored(2)] obtain L where d4: "d4 = ?d3\<lparr>GemPortIDs := L\<rparr>" ..
    from storeAllocId_frame [OF Stored(3)] obtain L' where d5: "d5 = d4\<lparr>AllocIDs := L'\<rparr>" ..
    have p: "Pons d5 = Pons ?d3" "Published d5 = Published ?d3" "Flows d5 = Flows ?d3"
      by (simp_all add: d4 d5)
    have bb: "i < length (Pons d5)" "j < length (Onus (Pons d5 ! i))"
      using recordedFlow_effect(7,8) [OF b] by (simp_all add: p)
    from enqueueFlowAdd_effect(2) [OF bb] Stored(4) p show ?thesis by simp
  qed
  then show "OnuFlows (Onus (Pons (fst (FlowAdd d flow)) ! i) ! j)
           = OnuFlows (Onus (Pons (recordedFlow d flow i j) ! i) ! j)"
    and "Published (fst (FlowAdd d flow)) = Published (recordedFlow d flow i j)"
    and "Flows (fst (FlowAdd d flow)) = Flows (recordedFlow d flow i j)"
    by simp_all
qed

text \<open>
  Claim C6, as amended. For a flow of an ONU that \<open>FlowAdd\<close> does not turn away before
  the bookkeeping (access interface, not multicast, ONU found and not disabled), the
  steps come in this order: bookkeeping, validation, store of the GEM ports, store of the
  Alloc-ID, send on the channel of the ONU.

  \<^item> With strict bookkeeping the flow is in \<open>Flows\<close>, its key is appended to the flow
    list of the ONU, and \<open>Flow-add-received\<close> is published exactly when that list was
    empty before, whatever the outcome of the later steps.
  \<^item> A flow that the validation rejects is returned with the error of the validation;
    the device is then the one with the bookkeeping done, so the key of the rejected
    flow is in the flow list of the ONU, while the ledgers and the channels of the ONUs
    are as before the call.
  \<^item> When the store of the GEM ports panics (the ONU has no map in the ledger), the
    bookkeeping is done and nothing else; when the store of the Alloc-ID panics, the GEM
    ports are stored as well.
  \<^item> A call that returns no error has validated the flow, stored the GEM ports, then
    the Alloc-ID, and then sent the flow on the channel of the ONU.
\<close>

theorem flow_add_order:
  assumes target: "targetsOnu d flow i j"
    and ready: "OnuInternalState (Onus (Pons d ! i) ! j) \<notin> {OnuStatePonDisabled, OnuStateDisabled}"
  shows "(\<not> enablePerf d \<longrightarrow>
            Flows (fst (FlowAdd d flow)) (FlowKey (FlowId flow)) = Some flow
          \<and> OnuFlows (Onus (Pons (fst (FlowAdd d flow)) ! i) ! j)
              = OnuFlows (Onus (Pons d ! i) ! j) @ [FlowKey (FlowId flow)]
          \<and> Published (fst (FlowAdd d flow)) =
              (if OnuFlows (Onus (Pons d ! i) ! j) = []
               then Published d @ [PublishedEvent ''Flow-add-received''
                      (OnuPonPortID (Onus (Pons d ! i) ! j)) (OnuID (Onus (Pons d ! i) ! j))
                      (OnuSn (Onus (Pons d ! i) ! j))]
               else Published d))
       \<and> (\<forall>err. validateFlow d flow = Some err
             \<longrightarrow> FlowAdd d flow = (recordedFlow d flow i j, Some err)
                 \<and> AllocIDs (fst (FlowAdd d flow)) = AllocIDs d
                 \<and> GemPortIDs (fst (FlowAdd d flow)) = GemPortIDs d
                 \<and> (\<forall>p n. OnuChannel (Onus (Pons (fst (FlowAdd d flow)) ! p) ! n)
                             = OnuChannel (Onus (Pons d ! p) ! n)))
       \<and> (\<forall>e. validateFlow d flow = None
               \<and> storeGemPortIdByFlow (recordedFlow d flow i j) flow = Inl e
             \<longrightarrow> FlowAdd d flow = (recordedFlow d flow i j, Some e))
       \<and> (\<forall>d4 e. validateFlow d flow = None
               \<and> storeGemPortIdByFlow (recordedFlow d flow i j) flow = Inr d4
               \<and> storeAllocId d4 flow = Inl e
             \<longrightarrow> FlowAdd d flow = (d4, Some e))
       \<and> (snd (FlowAdd d flow) = None \<longrightarrow>
            (\<exists>d4 d5. validateFlow d flow = None
               \<and> storeGemPortIdByFlow (recordedFlow d flow i j) flow = Inr d4
               \<and> storeAllocId d4 flow = Inr d5
               \<and> fst (FlowAdd d flow) = enqueueFlowAdd i j flow d5
               \<and> OnuChannel (Onus (Pons (fst (FlowAdd d flow)) ! i) ! j)
                   = OnuChannel (Onus (Pons d ! i) ! j) @
                       [MsgFlowAdd (PonID (Pons d ! i)) (OnuID (Onus (Pons d ! i) ! j)) flow]))"
proof (intro conjI impI allI)
  note b = targetsOnu_bounds [OF target]
  note k = FlowAdd_bookkeeping [OF target ready]
  note r = recordedFlow_effect [OF b, of flow]
  {
    assume strict: "\<not> enablePerf d"
    from k(3) r(3) strict
    show "Flows (fst (FlowAdd d flow)) (FlowKey (FlowId flow)) = Some flow" by simp
    from k(1) r(1) strict
    show "OnuFlows (Onus (Pons (fst (FlowAdd d flow)) ! i) ! j)
              = OnuFlows (Onus (Pons d ! i) ! j) @ [FlowKey (FlowId flow)]" by simp
    from k(2) r(2) strict
    show "Published (fst (FlowAdd d flow)) =
              (if OnuFlows (Onus (Pons d ! i) ! j) = []
               then Published d @ [PublishedEvent ''Flow-add-received''
                      (OnuPonPortID (Onus (Pons d ! i) ! j)) (OnuID (Onus (Pons d ! i) ! j))
                      (OnuSn (Onus (Pons d ! i) ! j))]
               else Published d)" by simp
  }
  {
    fix err assume "validateFlow d flow = Some err"
    then show rj: "FlowAdd d flow = (recordedFlow d flow i j, Some err)"
      by (simp add: FlowAdd_recorded [OF target ready])
    from rj show "AllocIDs (fst (FlowAdd d flow)) = AllocIDs d" by simp
    from rj show "GemPortIDs (fst (FlowAdd d flow)) = GemPortIDs d" by simp
    fix p n
    from rj recordedFlow_channels [OF b]
    show "OnuChannel (Onus (Pons (fst (FlowAdd d flow)) ! p) ! n) = OnuChannel (Onus (Pons d ! p) ! n)"
      by simp
  }
  {
    fix e assume "validateFlow d flow = None
               \<and> storeGemPortIdByFlow (recordedFlow d flow i j) flow = Inl e"
    then show "FlowAdd d flow = (recordedFlow d flow i j, Some e)"
      by (simp add: FlowAdd_recorded [OF target ready])
  }
  {
    fix d4 e assume "validateFlow d flow = None
               \<and> storeGemPortIdByFlow (recordedFlow d flow i j) flow = Inr d4
               \<and> storeAllocId d4 flow = Inl e"
    then show "FlowAdd d flow = (d4, Some e)"
      by (simp add: FlowAdd_recorded [OF target ready])
  }
  {
    assume ok: "snd (FlowAdd d flow) = None"
    let ?d3 = "recordedFlow d flow i j"
    have "\<exists>d4 d5. validateFlow d flow = None
        \<and> storeGemPortIdByFlow ?d3 flow = Inr d4 \<and> storeAllocId d4 flow = Inr d5
        \<and> FlowAdd d flow = (enqueueFlowAdd i j flow d5, None)"
      using target ready
    proof (cases rule: FlowAdd_outcome)
      case (Invalid err)
      with ok show ?thesis by simp
    next
      case (GemPanic p)
      with ok show ?thesis by simp
    next
      case (AllocPanic d4 p)
      with ok show ?thesis by simp
    next
      case (Stored d4 d5)
      then show ?thesis by blast
    qed
    then obtain d4 d5 where s: "validateFlow d flow = None"
      "storeGemPortIdByFlow ?d3 flow = Inr d4" "storeAllocId d4 flow = Inr d5"
      "FlowAdd d flow = (enqueueFlowAdd i j flow d5, None)"
      by blast
    from storeGemPortIdByFlow_frame [OF s(2)] obtain L where d4: "d4 = ?d3\<lparr>GemPortIDs := L\<rparr>" ..
    from storeAllocId_frame [OF s(3)] obtain L' where d5: "d5 = d4\<lparr>AllocIDs := L'\<rparr>" ..
    have p: "Pons d5 = Pons ?d3" by (simp add: d4 d5)
    have bb: "i < length (Pons d5)" "j < length (Onus (Pons d5 ! i))"
      using r(7,8) by (simp_all add: p)
    from enqueueFlowAdd_effect(1) [OF bb, of flow] r(4,5,6) s(4)
    have "OnuChannel (Onus (Pons (fst (FlowAdd d flow)) ! i) ! j)
                   = OnuChannel (Onus (Pons d ! i) ! j) @
                       [MsgFlowAdd (PonID (Pons d ! i)) (OnuID (Onus (Pons d ! i) ! j)) flow]"
      by (simp add: p)
    with s show "\<exists>d4 d5. validateFlow d flow = None
               \<and> storeGemPortIdByFlow (recordedFlow d flow i j) flow = Inr d4
               \<and> storeAllocId d4 flow = Inr d5
               \<and> fst (FlowAdd d flow) = enqueueFlowAdd i j flow d5
               \<and> OnuChannel (Onus (Pons (fst (FlowAdd d flow)) ! i) ! j)
                   = OnuChannel (Onus (Pons d ! i) ! j) @
                       [MsgFlowAdd (PonID (Pons d ! i)) (OnuID (Onus (Pons d ! i) ! j)) flow]"
      by auto
  }
qed


theorem flow_add_order_witness:
  "targetsOnu exampleOlt (exampleFlow 1 1 100 50) 0 0
   \<and> OnuInternalState (Onus (Pons exampleOlt ! 0) ! 0) = OnuStateEnabled
   \<and> \<not> enablePerf exampleOlt
   \<and> snd (FlowAdd exampleOlt (exampleFlow 1 1 100 50)) = None
   \<and> OnuFlows (Onus (Pons (fst (FlowAdd exampleOlt (exampleFlow 1 1 100 50))) ! 0) ! 0)
       = [FlowKey 1]
   \<and> Published (fst (FlowAdd exampleOlt (exampleFlow 1 1 100 50)))
       = [PublishedEvent ''Flow-add-received'' 0 1 ''BBSM00000001'']
   \<and> OnuChannel (Onus (Pons (fst (FlowAdd exampleOlt (exampleFlow 1 1 100 50))) ! 0) ! 0)
       = [MsgFlowAdd 0 1 (exampleFlow 1 1 100 50)]
   \<and> targetsOnu exampleOlt1 (exampleFlow 2 2 100 60) 0 1
   \<and> OnuInternalState (Onus (Pons exampleOlt1 ! 0) ! 1) = OnuStateEnabled
   \<and> validateFlow exampleOlt1 (exampleFlow 2 2 100 60) = Some ErrAllocInUse
   \<and> snd (FlowAdd exampleOlt1 (exampleFlow 2 2 100 60)) = Some ErrAllocInUse
   \<and> OnuFlows (Onus (Pons exampleOlt1 ! 0) ! 1) = []
   \<and> OnuFlows (Onus (Pons (fst (FlowAdd exampleOlt1 (exampleFlow 2 2 100 60))) ! 0) ! 1)
       = [FlowKey 2]
   \<and> Flows (fst (FlowAdd exampleOlt1 (exampleFlow 2 2 100 60))) (FlowKey 2)
       = Some (exampleFlow 2 2 100 60)
   \<and> AllocIDs (fst (FlowAdd exampleOlt1 (exampleFlow 2 2 100 60))) = AllocIDs exampleOlt1
   \<and> GemPortIDs (fst (FlowAdd exampleOlt1 (exampleFlow 2 2 100 60))) = GemPortIDs exampleOlt1
   \<and> OnuChannel (Onus (Pons (fst (FlowAdd exampleOlt1 (exampleFlow 2 2 100 60))) ! 0) ! 1)
       = []
   \<and> targetsOnu exampleOltNoGemMaps (exampleFlow 1 1 100 50) 0 0
   \<and> snd (FlowAdd exampleOltNoGemMaps (exampleFlow 1 1 100 50)) = Some PanicNilMap
   \<and> OnuFlows (Onus (Pons (fst (FlowAdd exampleOltNoGemMaps (exampleFlow 1 1 100 50))) ! 0) ! 0)
       = [FlowKey 1]
   \<and> AllocIDs (fst (FlowAdd exampleOltNoGemMaps (exampleFlow 1 1 100 50)))
       = AllocIDs exampleOltNoGemMaps
   \<and> targetsOnu exampleOltNoAllocMaps (exampleFlow 1 1 100 50) 0 0
   \<and> snd (FlowAdd exampleOltNoAllocMaps (exampleFlow 1 1 100 50)) = Some PanicNilMap
   \<and> OnuFlows (Onus (Pons (fst (FlowAdd exampleOltNoAllocMaps (exampleFlow 1 1 100 50))) ! 0) ! 0)
       = [FlowKey 1]
   \<and> gemStored (fst (FlowAdd exampleOltNoAllocMaps (exampleFlow 1 1 100 50)))
        (exampleFlow 1 1 100 50) 50
   \<and> OnuChannel (Onus (Pons (fst (FlowAdd exampleOltNoAllocMaps (exampleFlow 1 1 100 50))) ! 0) ! 0)
       = []"
proof -
  have tg: "targetsOnu exampleOlt (exampleFlow 1 1 100 50) 0 0"
    by (simp add: targetsOnu_def example_defs flow_defs)
  have st: "OnuInternalState (Onus (Pons exampleOlt ! 0) ! 0) = OnuStateEnabled"
    by (simp add: example_defs)
  then have rd: "OnuInternalState (Onus (Pons exampleOlt ! 0) ! 0)
      \<notin> {OnuStatePonDisabled, OnuStateDisabled}" by simp
  have strict: "\<not> enablePerf exampleOlt" by (simp add: example_defs)
  have ok: "snd (FlowAdd exampleOlt (exampleFlow 1 1 100 50)) = None"
    by (simp add: example_defs flow_defs)
  have fl: "OnuFlows (Onus (Pons exampleOlt ! 0) ! 0) = []"
    "OnuChannel (Onus (Pons exampleOlt ! 0) ! 0) = []"
    "OnuPonPortID (Onus (Pons exampleOlt ! 0) ! 0) = 0"
    "OnuID (Onus (Pons exampleOlt ! 0) ! 0) = 1"
    "OnuSn (Onus (Pons exampleOlt ! 0) ! 0) = ''BBSM00000001''"
    "PonID (Pons exampleOlt ! 0) = 0"
    "Published exampleOlt = []"
    "FlowId (exampleFlow 1 1 100 50) = 1"
    by (simp_all add: example_defs)
  have tg2: "targetsOnu exampleOlt1 (exampleFlow 2 2 100 60) 0 1"
    by (simp add: targetsOnu_def example_defs flow_defs)
  have st2: "OnuInternalState (Onus (Pons exampleOlt1 ! 0) ! 1) = OnuStateEnabled"
    by (simp add: example_defs flow_defs)
  then have rd2: "OnuInternalState (Onus (Pons exampleOlt1 ! 0) ! 1)
      \<notin> {OnuStatePonDisabled, OnuStateDisabled}" by simp
  have strict2: "\<not> enablePerf exampleOlt1" by (simp add: example_defs flow_defs)
  have v2: "validateFlow exampleOlt1 (exampleFlow 2 2 100 60) = Some ErrAllocInUse"
    by (simp add: example_defs flow_defs)
  have fl2: "OnuFlows (Onus (Pons exampleOlt1 ! 0) ! 1) = []"
    "OnuChannel (Onus (Pons exampleOlt1 ! 0) ! 1) = []"
    "FlowId (exampleFlow 2 2 100 60) = 2"
    by (simp_all add: example_defs flow_defs)
  note accepted = flow_add_order [OF tg rd]
  note rejected = flow_add_order [OF tg2 rd2]
  note acc_book = accepted [THEN conjunct1, THEN mp, OF strict]
  note acc_sent = accepted [THEN conjunct2, THEN conjunct2, THEN conjunct2, THEN conjunct2,
    THEN mp, OF ok]
  note rej_book = rejected [THEN conjunct1, THEN mp, OF strict2]
  note rej_state = rejected [THEN conjunct2, THEN conjunct1, THEN spec, THEN mp, OF v2]
  have a1: "OnuFlows (Onus (Pons (fst (FlowAdd exampleOlt (exampleFlow 1 1 100 50))) ! 0) ! 0)
       = [FlowKey 1]"
    using acc_book [THEN conjunct2, THEN conjunct1] by (simp add: fl)
  have a2: "Published (fst (FlowAdd exampleOlt (exampleFlow 1 1 100 50)))
       = [PublishedEvent ''Flow-add-received'' 0 1 ''BBSM00000001'']"
    using acc_book [THEN conjunct2, THEN conjunct2] by (simp add: fl)
  from acc_sent obtain d4 d5 where
    "OnuChannel (Onus (Pons (fst (FlowAdd exampleOlt (exampleFlow 1 1 100 50))) ! 0) ! 0)
       = OnuChannel (Onus (Pons exampleOlt ! 0) ! 0) @
           [MsgFlowAdd (PonID (Pons exampleOlt ! 0)) (OnuID (Onus (Pons exampleOlt ! 0) ! 0))
              (exampleFlow 1 1 100 50)]"
    by (elim exE conjE)
  then have a3: "OnuChannel (Onus (Pons (fst (FlowAdd exampleOlt (exampleFlow 1 1 100 50))) ! 0) ! 0)
       = [MsgFlowAdd 0 1 (exampleFlow 1 1 100 50)]"
    by (simp add: fl)
  from rej_state [THEN conjunct1]
  have r5: "snd (FlowAdd exampleOlt1 (exampleFlow 2 2 100 60)) = Some ErrAllocInUse"
    by simp
  have r1: "OnuFlows (Onus (Pons (fst (FlowAdd exampleOlt1 (exampleFlow 2 2 100 60))) ! 0) ! 1)
       = [FlowKey 2]"
    using rej_book [THEN conjunct2, THEN conjunct1] fl2 by simp
  have r2: "Flows (fst (FlowAdd exampleOlt1 (exampleFlow 2 2 100 60))) (FlowKey 2)
       = Some (exampleFlow 2 2 100 60)"
    using rej_book [THEN conjunct1] fl2 by simp
  note r3 = rej_state [THEN conjunct2, THEN conjunct1]
    rej_state [THEN conjunct2, THEN conjunct2, THEN conjunct1]
  have r4: "OnuChannel (Onus (Pons (fst (FlowAdd exampleOlt1 (exampleFlow 2 2 100 60))) ! 0) ! 1)
       = []"
    using rej_state [THEN conjunct2, THEN conjunct2, THEN conjunct2, THEN spec, THEN spec, of 0 1]
      fl2 by simp
  let ?f = "exampleFlow 1 1 100 50"
  note defs = exampleOltNoGemMaps_def exampleOltNoAllocMaps_def example_defs flow_defs
  have tg3: "targetsOnu exampleOltNoGemMaps ?f 0 0"
    by (simp add: targetsOnu_def defs)
  have rd3: "OnuInternalState (Onus (Pons exampleOltNoGemMaps ! 0) ! 0)
      \<notin> {OnuStatePonDisabled, OnuStateDisabled}" by (simp add: defs)
  have strict3: "\<not> enablePerf exampleOltNoGemMaps" by (simp add: defs)
  have g3: "validateFlow exampleOltNoGemMaps ?f = None
      \<and> storeGemPortIdByFlow (recordedFlow exampleOltNoGemMaps ?f 0 0) ?f = Inl PanicNilMap"
    by (simp add: recordedFlow_def defs)
  have fl3: "OnuFlows (Onus (Pons exampleOltNoGemMaps ! 0) ! 0) = []"
    "FlowId ?f = 1" by (simp_all add: defs)
  note gem = flow_add_order [OF tg3 rd3]
  note g0 = gem [THEN conjunct2, THEN conjunct2, THEN conjunct1, THEN spec, THEN mp, OF g3]
  from g0 have g1: "snd (FlowAdd exampleOltNoGemMaps ?f) = Some PanicNilMap" by simp
  have g2: "OnuFlows (Onus (Pons (fst (FlowAdd exampleOltNoGemMaps ?f)) ! 0) ! 0) = [FlowKey 1]"
    using gem [THEN conjunct1, THEN mp, OF strict3, THEN conjunct2, THEN conjunct1] fl3 by simp
  from g0 have g4: "AllocIDs (fst (FlowAdd exampleOltNoGemMaps ?f)) = AllocIDs exampleOltNoGemMaps"
    by simp
  have tg4: "targetsOnu exampleOltNoAllocMaps ?f 0 0"
    by (simp add: targetsOnu_def defs)
  have rd4: "OnuInternalState (Onus (Pons exampleOltNoAllocMaps ! 0) ! 0)
      \<notin> {OnuStatePonDisabled, OnuStateDisabled}" by (simp add: defs)
  have strict4: "\<not> enablePerf exampleOltNoAllocMaps" by (simp add: defs)
  have fl4: "OnuFlows (Onus (Pons exampleOltNoAllocMaps ! 0) ! 0) = []"
    by (simp_all add: defs)
  have "case storeGemPortIdByFlow (recordedFlow exampleOltNoAllocMaps ?f 0 0) ?f of
          Inl e \<Rightarrow> False
        | Inr d4 \<Rightarrow> storeAllocId d4 ?f = Inl PanicNilMap \<and> gemStored d4 ?f 50
            \<and> OnuChannel (Onus (Pons d4 ! 0) ! 0) = []"
    by (simp add: recordedFlow_def gemStored_def lookup4_def defs)
  then obtain d4 where
    s4: "storeGemPortIdByFlow (recordedFlow exampleOltNoAllocMaps ?f 0 0) ?f = Inr d4"
    and p4: "storeAllocId d4 ?f = Inl PanicNilMap"
    and k4: "gemStored d4 ?f 50" "OnuChannel (Onus (Pons d4 ! 0) ! 0) = []"
    by (cases "storeGemPortIdByFlow (recordedFlow exampleOltNoAllocMaps ?f 0 0) ?f") simp_all
  have v4: "validateFlow exampleOltNoAllocMaps ?f = None" by (simp add: defs)
  note alloc = flow_add_order [OF tg4 rd4]
  from v4 s4 p4 have h4: "validateFlow exampleOltNoAllocMaps ?f = None
      \<and> storeGemPortIdByFlow (recordedFlow exampleOltNoAllocMaps ?f 0 0) ?f = Inr d4
      \<and> storeAllocId d4 ?f = Inl PanicNilMap" by simp
  note a0 = alloc [THEN conjunct2, THEN conjunct2, THEN conjunct2, THEN conjunct1,
    THEN spec, THEN spec, THEN mp, OF h4]
  from a0 have b1: "snd (FlowAdd exampleOltNoAllocMaps ?f) = Some PanicNilMap" by simp
  have b2: "OnuFlows (Onus (Pons (fst (FlowAdd exampleOltNoAllocMaps ?f)) ! 0) ! 0) = [FlowKey 1]"
    using alloc [THEN conjunct1, THEN mp, OF strict4, THEN conjunct2, THEN conjunct1] fl4 fl3(2)
    by simp
  from a0 k4 have b3: "gemStored (fst (FlowAdd exampleOltNoAllocMaps ?f)) ?f 50"
    "OnuChannel (Onus (Pons (fst (FlowAdd exampleOltNoAllocMaps ?f)) ! 0) ! 0) = []"
    by simp_all
  from tg st strict ok a1 a2 a3 tg2 st2 v2 r5 fl2(1) r1 r2 r3 r4
    tg3 g1 g2 g4 tg4 b1 b2 b3
  show ?thesis by (intro conjI)
qed

theorem flow_add_order_counterexample:
  "validateFlow exampleOlt1 (exampleFlow 2 2 100 60) = Some ErrAllocInUse
   \<and> snd (FlowAdd exampleOlt1 (exampleFlow 2 2 100 60)) = Some ErrAllocInUse
   \<and> OnuFlows (Onus (Pons exampleOlt1 ! 0) ! 1) = []
   \<and> OnuFlows (Onus (Pons (fst (FlowAdd exampleOlt1 (exampleFlow 2 2 100 60))) ! 0) ! 1)
       = [FlowKey 2]"
  by (simp add: example_defs flow_defs)

section \<open>A hard reboot\<close>

lemma RestartOLT_completed:
  assumes "RestartOLT onuFsm now d = (d', None)"
  shows "AllocIDs d' = resetPonMaps (length (Pons d)) Map.empty"
    and "GemPortIDs d' = resetPonMaps (length (Pons d)) Map.empty"
    and "signature d' = word_of_int now"
    and "InternalState d' = OltInternalStateInitialized"
    and "InternalState d = OltInternalStateDisabled \<or> InternalState d = OltInternalStateEnabled"
proof -
  show v: "InternalState d = OltInternalStateDisabled \<or> InternalState d = OltInternalStateEnabled"
    using assms by (rule_tac ccontr) (simp add: RestartOLT_invalid)
  define d4 where "d4 = (disableOnus onuFsm
                  (clearAllResources (d\<lparr>PreviouslyConnected := False,
                      InternalState := OltInternalStateDeleted\<rparr>)))\<lparr>OltServer := False\<rparr>"
  define d7 where "d7 = d4\<lparr>channel := ChanClosed, enableContext := CtxCanceled,
                 signature := word_of_int now, InternalState := OltInternalStateInitialized\<rparr>"
  have l7: "AllocIDs d7 = Map.empty" "GemPortIDs d7 = Map.empty" "signature d7 = word_of_int now"
    "InternalState d7 = OltInternalStateInitialized" "length (Pons d7) = length (Pons d)"
    by (simp_all add: d7_def d4_def clearAllResources_def)
  from assms have
    "(if channel d4 \<noteq> ChanOpen then (d4, Some PanicCloseChannel)
      else if enableContext d4 = CtxNil then (d4\<lparr>channel := ChanClosed\<rparr>, Some PanicNilPointer)
      else InitOlt d7) = (d', None)"
    unfolding RestartOLT_valid [OF v] Let_def d4_def [symmetric] d7_def [symmetric] .
  then have i: "InitOlt d7 = (d', None)" by (auto split: if_splits)
  from InitOlt_None [OF i] l7
  show "AllocIDs d' = resetPonMaps (length (Pons d)) Map.empty"
    and "GemPortIDs d' = resetPonMaps (length (Pons d)) Map.empty"
    and "signature d' = word_of_int now"
    and "InternalState d' = OltInternalStateInitialized"
    by simp_all
qed

lemmas reboot_defs = RestartOLT_def InternalStateEvent_def InitOlt_def disableOnus_def
  fireOnu_def clearAllResources_def resetPonMaps_def exampleOltDisabled_def

text \<open>
  Claim C4, as amended. When \<open>RestartOLT\<close> is called on a device that is not enabled (a
  hard reboot) and returns without error, neither ledger has a resource-ID entry, and
  the signature that \<open>HeartbeatCheck\<close> returns is the Unix time read at the end of the
  reboot (olt.go:427), truncated to 32 bits. It differs from the signature returned
  before the reboot exactly when that truncated reading is another value.
\<close>

theorem hard_reboot_clears_ledgers:
  assumes hard: "InternalState d \<noteq> OltInternalStateEnabled"
    and completed: "RestartOLT onuFsm now d = (d', None)"
  shows "ledgerEntries (AllocIDs d') = {} \<and> ledgerEntries (GemPortIDs d') = {}
       \<and> HeartbeatCheck d' = word_of_int now
       \<and> (HeartbeatCheck d' \<noteq> HeartbeatCheck d) = (word_of_int now \<noteq> HeartbeatCheck d)"
  using RestartOLT_completed(1,2,3) [OF completed]
  by (simp add: HeartbeatCheck_def lookup4_resetPonMaps_empty)

theorem hard_reboot_clears_ledgers_witness:
  "InternalState exampleOltDisabled \<noteq> OltInternalStateEnabled
   \<and> snd (RestartOLT exampleOnuFsm 2000 exampleOltDisabled) = None
   \<and> lookup4 (AllocIDs exampleOltDisabled) 0 1 16 100 = Some {1}
   \<and> ledgerEntries (AllocIDs (fst (RestartOLT exampleOnuFsm 2000 exampleOltDisabled))) = {}
   \<and> ledgerEntries (GemPortIDs (fst (RestartOLT exampleOnuFsm 2000 exampleOltDisabled))) = {}
   \<and> HeartbeatCheck exampleOltDisabled = 1000
   \<and> HeartbeatCheck (fst (RestartOLT exampleOnuFsm 2000 exampleOltDisabled)) = 2000"
proof -
  have hard: "InternalState exampleOltDisabled \<noteq> OltInternalStateEnabled"
    by (simp add: exampleOltDisabled_def)
  have fin: "snd (RestartOLT exampleOnuFsm 2000 exampleOltDisabled) = None"
    by (simp add: reboot_defs example_defs flow_defs)
  then have completed: "RestartOLT exampleOnuFsm 2000 exampleOltDisabled
      = (fst (RestartOLT exampleOnuFsm 2000 exampleOltDisabled), None)"
    by (simp add: prod_eq_iff)
  have sig: "HeartbeatCheck exampleOltDisabled = 1000"
    by (simp add: HeartbeatCheck_def reboot_defs example_defs flow_defs)
  have held: "lookup4 (AllocIDs exampleOltDisabled) 0 1 16 100 = Some {1}"
    by (simp add: lookup4_def reboot_defs example_defs flow_defs)
  from hard_reboot_clears_ledgers [OF hard completed] hard fin sig held
  show ?thesis by simp
qed

text \<open>
  The claim as first stated fails when the clock, truncated to 32 bits, reads at the end
  of the reboot the value that the signature already has: the reboot completes, and
  \<open>HeartbeatCheck\<close> returns the same signature as before.
\<close>

theorem hard_reboot_counterexample:
  "InternalState exampleOltDisabled \<noteq> OltInternalStateEnabled
   \<and> snd (RestartOLT exampleOnuFsm 1000 exampleOltDisabled) = None
   \<and> HeartbeatCheck (fst (RestartOLT exampleOnuFsm 1000 exampleOltDisabled))
       = HeartbeatCheck exampleOltDisabled"
  by (simp add: HeartbeatCheck_def reboot_defs example_defs flow_defs)

section \<open>Events that the InternalState machine of the OLT does not declare\<close>





section \<open>The indications follow the order of the messages\<close>






end
